theory Spec2Isabelle
  imports Complex_Main "HOL-Library.Word" "HOL-Library.Multiset"
begin

section \<open>JavaScript values used by the front end\<close>

text \<open>
  A JavaScript string is a sequence of UTF-16 code units and \<open>length\<close> counts code
  units.  The sources contain characters outside ASCII (the ellipsis U+2026 appended by
  \<open>trimToSentence\<close>, the em dash U+2014 in the quotes), so strings are lists of 16-bit
  words; \<open>ascii\<close> embeds an ASCII literal.
\<close>

type_synonym code_unit = "16 word"
type_synonym jsstring = "code_unit list"

definition ascii :: "string \<Rightarrow> jsstring" where
  "ascii s = map of_char s"

definition space :: code_unit where
  "space = 0x20"

definition ellipsis :: code_unit where
  "ellipsis = 0x2026"

definition em_dash :: code_unit where
  "em_dash = 0x2014"

text \<open>
  \<open>String.prototype.trim\<close> removes the WhiteSpace and LineTerminator code points of
  ECMAScript from both ends.
\<close>

definition is_js_space :: "code_unit \<Rightarrow> bool" where
  "is_js_space c \<longleftrightarrow>
     c = 0x09 \<or> c = 0x0A \<or> c = 0x0B \<or> c = 0x0C \<or> c = 0x0D \<or> c = 0x20 \<or> c = 0xA0
     \<or> c = 0x1680 \<or> (0x2000 \<le> c \<and> c \<le> 0x200A) \<or> c = 0x2028 \<or> c = 0x2029
     \<or> c = 0x202F \<or> c = 0x205F \<or> c = 0x3000 \<or> c = 0xFEFF"

definition js_trim :: "jsstring \<Rightarrow> jsstring" where
  "js_trim s = rev (dropWhile is_js_space (rev (dropWhile is_js_space s)))"

text \<open>
  \<open>s.slice(0, e)\<close> for an integer \<open>e\<close>: a negative end counts from the end of the
  string, and the result is clamped to the string.
\<close>

definition js_slice0 :: "jsstring \<Rightarrow> int \<Rightarrow> jsstring" where
  "js_slice0 s e = (if e < 0 then take (nat (int (length s) + e)) s else take (nat e) s)"

text \<open>\<open>s.lastIndexOf(c)\<close> for a single code unit: the last position of it, or -1.\<close>

definition js_lastIndexOf :: "jsstring \<Rightarrow> code_unit \<Rightarrow> int" where
  "js_lastIndexOf s c =
     (if c \<in> set s then int (length s) - 1 - int (length (takeWhile (\<lambda>x. x \<noteq> c) (rev s)))
      else - 1)"

section \<open>trimToSentence (src/unnamed/part_013, the module lib/utils)\<close>

definition is_terminator :: "code_unit \<Rightarrow> bool" where
  "is_terminator c \<longleftrightarrow> c = 0x2E \<or> c = 0x21 \<or> c = 0x3F"

text \<open>
  \<open>text.match(/[^.!?]+[.!?]+/g)\<close>: the matches from left to right.  A match starts at
  the first code unit that is no terminator, takes the longest run of such code units
  and then the longest run of terminators; a run that reaches the end of the text with
  no terminator after it is no match.
\<close>

function match_sentences :: "jsstring \<Rightarrow> jsstring list" where
  "match_sentences text =
     (let t = dropWhile is_terminator text;
          body = takeWhile (\<lambda>c. \<not> is_terminator c) t;
          rest = dropWhile (\<lambda>c. \<not> is_terminator c) t
      in if rest = [] then []
         else (body @ takeWhile is_terminator rest)
                # match_sentences (dropWhile is_terminator rest))"
  by pat_completeness auto
termination
proof (relation "measure length")
  show "wf (measure length)"
    by simp
next
  fix s t :: jsstring and body rest :: jsstring
  assume t: "t = dropWhile is_terminator s"
    and rest: "rest = dropWhile (\<lambda>c. \<not> is_terminator c) t"
    and ne: "rest \<noteq> []"
  from rest ne have "is_terminator (hd rest)"
    using hd_dropWhile [of "\<lambda>c. \<not> is_terminator c" t] by auto
  with ne have "length (dropWhile is_terminator rest) < length rest"
    using length_dropWhile_le [of is_terminator "tl rest"] by (cases rest) auto
  moreover have "length rest \<le> length t"
    using rest by (simp add: length_dropWhile_le)
  moreover have "length t \<le> length s"
    using t by (simp add: length_dropWhile_le)
  ultimately show "(dropWhile is_terminator rest, s) \<in> measure length"
    by simp
qed

declare match_sentences.simps [simp del]

text \<open>\<open>text.match(...) || [text]\<close>: no match at all is \<open>null\<close>.\<close>

definition sentences_of :: "jsstring \<Rightarrow> jsstring list" where
  "sentences_of text = (case match_sentences text of [] \<Rightarrow> [text] | m # ms \<Rightarrow> m # ms)"

text \<open>The \<open>for\<close> loop over the sentences; \<open>break\<close> returns what was collected.\<close>

fun take_sentences :: "int \<Rightarrow> jsstring \<Rightarrow> jsstring list \<Rightarrow> jsstring" where
  "take_sentences maxChars out [] = out"
| "take_sentences maxChars out (s # ss) =
     (if int (length (out @ s)) > maxChars then out
      else take_sentences maxChars (out @ js_trim s @ [space]) ss)"

definition trimToSentence :: "jsstring \<Rightarrow> int \<Rightarrow> jsstring" where
  "trimToSentence text maxChars =
     (if int (length text) \<le> maxChars then text
      else
        let out = js_trim (take_sentences maxChars [] (sentences_of text)) in
        if out = [] then
          (let slice = js_slice0 text (maxChars - 1);
               lastSpace = js_lastIndexOf slice space
           in js_trim (if lastSpace > 40 then js_slice0 slice lastSpace else slice)
                @ [ellipsis])
        else if length out < length text then out @ [ellipsis]
        else out)"

section \<open>Numbers and template strings\<close>

text \<open>
  A JavaScript number as far as \<open>===\<close> tells values apart: NaN, the two infinities
  and the finite values.  \<open>undefined\<close> is \<open>None\<close> of an option type.
\<close>

datatype jsnum = NaN | PosInf | NegInf | Num rat

text \<open>\<open>a === b\<close> on numbers: NaN is equal to nothing, not even to itself.\<close>

definition js_strict_eq :: "jsnum \<Rightarrow> jsnum \<Rightarrow> bool" where
  "js_strict_eq a b \<longleftrightarrow> a \<noteq> NaN \<and> a = b"

text \<open>
  \<open>x++\<close> stores \<open>ToNumber(x) + 1\<close>: an absent property is \<open>undefined\<close>, whose number
  is NaN, and NaN + 1 is NaN.
\<close>

fun js_incr :: "jsnum option \<Rightarrow> jsnum" where
  "js_incr None = NaN"
| "js_incr (Some NaN) = NaN"
| "js_incr (Some PosInf) = PosInf"
| "js_incr (Some NegInf) = NegInf"
| "js_incr (Some (Num n)) = Num (n + 1)"

text \<open>The decimal digits of a natural number, as a template string prints it.\<close>

definition digit :: "nat \<Rightarrow> code_unit" where
  "digit d = of_nat (48 + d)"

function show_nat :: "nat \<Rightarrow> jsstring" where
  "show_nat n = (if n < 10 then [digit n] else show_nat (n div 10) @ [digit (n mod 10)])"
  by pat_completeness auto
termination
  by (relation "measure id") auto

declare show_nat.simps [simp del]

section \<open>The data model (src/unnamed/part_003, the module types/autoqa)\<close>

text \<open>\<open>QuestionMarks = 2 | 5 | 10\<close>, with the number each member stands for.\<close>

datatype QuestionMarks = Two | Five | Ten

fun mark_value :: "QuestionMarks \<Rightarrow> nat" where
  "mark_value Two = 2"
| "mark_value Five = 5"
| "mark_value Ten = 10"

datatype QuestionStatus = FOUND | NOT_FOUND | NEEDS_REVIEW | APPROVED

datatype AnswerFormat = concise | structured | detailed

record RetrievalScore =
  source :: jsstring
  score :: rat

record GenerationMetadata =
  prompt_template :: jsstring
  model :: jsstring
  generated_at :: "jsstring option"

record GeneratedQuestion =
  question_id :: jsstring
  question_text :: jsstring
  marks :: QuestionMarks
  answer :: jsstring
  answer_format :: AnswerFormat
  page_references :: "jsstring list"
  diagram_images :: "jsstring list"
  verbatim_quotes :: "jsstring list"
  status :: QuestionStatus
  retrieval_scores :: "RetrievalScore list"
  generation_metadata :: GenerationMetadata

text \<open>The interface \<open>CoverageReport\<close>.\<close>

record CoverageReport =
  total_questions :: nat
  found_count :: nat
  not_found_count :: nat

text \<open>
  \<open>QAPreviewItem\<close>; its members carry the prefix \<open>p_\<close> here, since a record field
  is a constant of the theory and \<open>GeneratedQuestion\<close> has members of the same names.
\<close>

record QAPreviewItem =
  p_question_id :: jsstring
  p_question_text :: jsstring
  p_marks :: QuestionMarks
  p_status :: QuestionStatus
  p_page_count :: nat
  p_confidence_score :: "rat option"

section \<open>The mock generator mockGenerateQuestions (src/unnamed/part_001)\<close>

text \<open>
  The generator reads the clock: \<open>new Date().toISOString()\<close> once at the start and
  \<open>Date.now()\<close> once for every question.  The clock is an input of the model:
  \<open>iso_now\<close> is the string read at the start and \<open>date_now k\<close> the value of the
  \<open>k\<close>-th call of \<open>Date.now()\<close>, counted from 0.
\<close>

record clock =
  iso_now :: jsstring
  date_now :: "nat \<Rightarrow> nat"

text \<open>The body of the inner loop for one \<open>mark\<close> and \<open>i\<close>, given the value of \<open>Date.now()\<close>.\<close>

definition mock_question :: "jsstring \<Rightarrow> nat \<Rightarrow> QuestionMarks \<Rightarrow> nat \<Rightarrow> GeneratedQuestion" where
  "mock_question now ms mark i =
     (let id = ascii ''auto:'' @ show_nat (mark_value mark) @ ascii ''-'' @ show_nat i
                 @ ascii ''-'' @ show_nat ms;
          st = (if i mod 5 = 0 then NOT_FOUND
                else if i mod 3 = 0 then NEEDS_REVIEW else FOUND);
          pageRefs = (if st = NOT_FOUND then [] else [ascii ''notes_ch1.pdf:3''])
      in \<lparr> question_id = id,
           question_text = ascii ''Sample '' @ show_nat (mark_value mark)
                             @ ascii ''M question '' @ show_nat (i + 1),
           marks = mark,
           answer = (if st = NOT_FOUND then []
                     else ascii ''Sample answer for a '' @ show_nat (mark_value mark)
                            @ ascii '' mark question derived from notes page 3.''),
           answer_format = (if mark_value mark = 2 then concise
                            else if mark_value mark = 5 then structured else detailed),
           page_references = pageRefs,
           diagram_images = [],
           verbatim_quotes = (if length pageRefs \<noteq> 0
                              then [ascii ''Definition of X '' @ [0xE2, 0x20AC, 0x201D]
                                      @ ascii '' notes_ch1.pdf:3'']
                              else []),
           status = st,
           retrieval_scores = map (\<lambda>p. \<lparr> source = p, score = 82 / 100 \<rparr>) pageRefs,
           generation_metadata = \<lparr> prompt_template = ascii ''notes_gqa_v1'',
                                   model = ascii ''gemini-1.5-pro'',
                                   generated_at = Some now \<rparr> \<rparr>)"

definition preview_of :: "GeneratedQuestion \<Rightarrow> QAPreviewItem" where
  "preview_of q =
     \<lparr> p_question_id = question_id q,
       p_question_text = question_text q,
       p_marks = marks q,
       p_status = status q,
       p_page_count = length (page_references q),
       p_confidence_score = (case retrieval_scores q of [] \<Rightarrow> None | r # _ \<Rightarrow> Some (score r)) \<rparr>"

text \<open>
  The two arrays the generator fills, and the number of \<open>Date.now()\<close> calls made so far.
\<close>

record mock_state =
  questions :: "GeneratedQuestion list"
  preview :: "QAPreviewItem list"
  clock_reads :: nat

definition mock_push :: "clock \<Rightarrow> QuestionMarks \<Rightarrow> nat \<Rightarrow> mock_state \<Rightarrow> mock_state" where
  "mock_push clk mark i st =
     (let q = mock_question (iso_now clk) (date_now clk (clock_reads st)) mark i
      in \<lparr> questions = questions st @ [q],
           preview = preview st @ [preview_of q],
           clock_reads = Suc (clock_reads st) \<rparr>)"

text \<open>
  \<open>for (let i = 0; i < options.questionsPerMark[mark]; i++)\<close>: with an integer bound
  \<open>n\<close> the loop runs for \<open>i = 0, ..., n - 1\<close>, and not at all when \<open>n \<le> 0\<close>.
\<close>

definition mock_for_mark :: "clock \<Rightarrow> (QuestionMarks \<Rightarrow> int) \<Rightarrow> QuestionMarks \<Rightarrow> mock_state \<Rightarrow> mock_state" where
  "mock_for_mark clk questionsPerMark mark st =
     fold (mock_push clk mark) [0 ..< nat (questionsPerMark mark)] st"

definition mock_run :: "clock \<Rightarrow> QuestionMarks list \<Rightarrow> (QuestionMarks \<Rightarrow> int) \<Rightarrow> mock_state" where
  "mock_run clk marks_opt questionsPerMark =
     fold (mock_for_mark clk questionsPerMark) marks_opt
       \<lparr> questions = [], preview = [], clock_reads = 0 \<rparr>"

definition mockGenerateQuestions ::
  "clock \<Rightarrow> QuestionMarks list \<Rightarrow> (QuestionMarks \<Rightarrow> int) \<Rightarrow> GeneratedQuestion list \<times> QAPreviewItem list" where
  "mockGenerateQuestions clk marks_opt questionsPerMark =
     (let st = mock_run clk marks_opt questionsPerMark in (questions st, preview st))"

section \<open>ReviewCenter (src/unnamed/part_012): the sample data\<close>

text \<open>
  \<open>Array.from({ length: 24 }).map((_, i) => ...)\<close>.  Every element reads the clock;
  \<open>stamp k\<close> is the string the \<open>k\<close>-th element gets.  The retrieval score is
  kept as the exact decimal \<open>0.85 + (i % 10) * 0.01\<close>; the code adds doubles, which
  differ from it in the last place for some \<open>i\<close>.  No property below reads the score.
\<close>

definition sample_page :: "nat \<Rightarrow> nat \<Rightarrow> nat \<Rightarrow> jsstring" where
  "sample_page d off i =
     ascii ''notes_ch'' @ show_nat (i div d + 1) @ ascii ''.pdf:'' @ show_nat (i + off)"

definition sample_question :: "(nat \<Rightarrow> jsstring) \<Rightarrow> nat \<Rightarrow> GeneratedQuestion" where
  "sample_question stamp i =
     \<lparr> question_id = ascii ''auto-'' @ show_nat (i + 1),
       question_text = ascii ''Explain stack ADT with operations (Q'' @ show_nat (i + 1)
                         @ ascii '').'',
       marks = [Two, Five, Ten] ! (i mod 3),
       answer = (if i mod 3 = 0
                 then ascii ''A stack is a linear data structure that follows LIFO principle...''
                 else []),
       answer_format = [concise, structured, detailed] ! (i mod 3),
       page_references = (if i mod 3 = 0 then [sample_page 3 3 i] else []),
       diagram_images = (if i mod 4 = 0 then [sample_page 4 5 i] else []),
       verbatim_quotes = (if i mod 3 = 0
                          then [[0x22] @ ascii ''Stack follows LIFO principle'' @ [0x22]
                                  @ [space, em_dash, space] @ sample_page 3 3 i]
                          else []),
       status = [FOUND, NOT_FOUND, NEEDS_REVIEW] ! (i mod 3),
       retrieval_scores = (if i mod 3 = 0
                           then [\<lparr> source = sample_page 3 3 i,
                                    score = 85 / 100 + of_nat (i mod 10) * (1 / 100) \<rparr>]
                           else []),
       generation_metadata = \<lparr> prompt_template = ascii ''notes_gqa_v1'',
                               model = ascii ''gemini-1.5-pro'',
                               generated_at = Some (stamp i) \<rparr> \<rparr>"

definition sampleAutoQAQuestions :: "(nat \<Rightarrow> jsstring) \<Rightarrow> GeneratedQuestion list" where
  "sampleAutoQAQuestions stamp = map (sample_question stamp) [0 ..< 24]"

section \<open>AutoQAPreview (src/src/components/AutoQAPreview.tsx)\<close>

record status_config =
  icon :: string
  color :: string
  label :: string

text \<open>
  \<open>statusConfig\<close> is an object literal with three properties; looking up any other key
  gives \<open>undefined\<close>.
\<close>

fun statusConfig :: "QuestionStatus \<Rightarrow> status_config option" where
  "statusConfig FOUND =
     Some \<lparr> icon = ''CheckCircle2'', color = ''text-green-600'', label = ''Found'' \<rparr>"
| "statusConfig NOT_FOUND =
     Some \<lparr> icon = ''AlertCircle'', color = ''text-red-600'', label = ''Not Found'' \<rparr>"
| "statusConfig NEEDS_REVIEW =
     Some \<lparr> icon = ''Clock'', color = ''text-yellow-600'', label = ''Needs Review'' \<rparr>"
| "statusConfig APPROVED = None"

text \<open>
  The accumulator of the reduction is an object: its properties in the order of their
  creation.  Assigning to a property that exists keeps its place; a new property goes
  to the end.
\<close>

type_synonym status_counts = "(QuestionStatus \<times> jsnum) list"

fun js_set :: "status_counts \<Rightarrow> QuestionStatus \<Rightarrow> jsnum \<Rightarrow> status_counts" where
  "js_set [] k v = [(k, v)]"
| "js_set ((k', v') # obj) k v = (if k' = k then (k, v) # obj else (k', v') # js_set obj k v)"

text \<open>\<open>acc[item.status]++; return acc;\<close>\<close>

definition stats_step :: "status_counts \<Rightarrow> QAPreviewItem \<Rightarrow> status_counts" where
  "stats_step acc item = js_set acc (p_status item) (js_incr (map_of acc (p_status item)))"

definition stats :: "QAPreviewItem list \<Rightarrow> status_counts" where
  "stats items = foldl stats_step [(FOUND, Num 0), (NOT_FOUND, Num 0), (NEEDS_REVIEW, Num 0)] items"

text \<open>
  Rendering reads \<open>config.icon\<close> of the looked-up entry: on \<open>undefined\<close> that is a
  TypeError, which ends the rendering.  A rendered cell is the entry with what is shown
  beside it.
\<close>

datatype js_error = TypeError

fun collect :: "('a \<Rightarrow> js_error + 'b) \<Rightarrow> 'a list \<Rightarrow> js_error + 'b list" where
  "collect f [] = Inr []"
| "collect f (x # xs) =
     (case f x of Inl e \<Rightarrow> Inl e
      | Inr y \<Rightarrow> (case collect f xs of Inl e \<Rightarrow> Inl e | Inr ys \<Rightarrow> Inr (y # ys)))"

definition render_count :: "QuestionStatus \<times> jsnum \<Rightarrow> js_error + (status_config \<times> jsnum)" where
  "render_count e =
     (case statusConfig (fst e) of None \<Rightarrow> Inl TypeError | Some config \<Rightarrow> Inr (config, snd e))"

definition render_item :: "QAPreviewItem \<Rightarrow> js_error + (status_config \<times> QAPreviewItem)" where
  "render_item item =
     (case statusConfig (p_status item) of None \<Rightarrow> Inl TypeError
      | Some config \<Rightarrow> Inr (config, item))"

definition AutoQAPreview ::
  "QAPreviewItem list \<Rightarrow> js_error + ((status_config \<times> jsnum) list \<times> (status_config \<times> QAPreviewItem) list)" where
  "AutoQAPreview items =
     (case collect render_count (stats items) of Inl e \<Rightarrow> Inl e
      | Inr summary \<Rightarrow>
          (case collect render_item items of Inl e \<Rightarrow> Inl e
           | Inr rows \<Rightarrow> Inr (summary, rows)))"

section \<open>ReviewCenter (src/unnamed/part_012): loading the results of a job\<close>

text \<open>
  An element of \<open>r.results\<close> as the page reads it.  Every member may be absent.
  \<open>r_answers\<close> is the object \<open>it.answers\<close> as \<open>Object.entries\<close> lists it.
\<close>

record raw_result =
  r_id :: "jsstring option"
  r_question :: "jsstring option"
  r_question_text :: "jsstring option"
  r_answers :: "(jsstring \<times> jsstring option) list option"
  r_answer :: "jsstring option"
  r_page_references :: "jsstring list option"

text \<open>\<open>a || b\<close> on a string that may be absent: \<open>undefined\<close> and \<open>""\<close> are falsy.\<close>

fun or_else :: "jsstring option \<Rightarrow> jsstring \<Rightarrow> jsstring" where
  "or_else None d = d"
| "or_else (Some []) d = d"
| "or_else (Some (c # cs)) d = c # cs"

fun truthy :: "jsstring option \<Rightarrow> bool" where
  "truthy None = False"
| "truthy (Some s) = (s \<noteq> [])"

text \<open>\<open>it.answers || { '2': it.answer }\<close>\<close>

definition answers_of :: "raw_result \<Rightarrow> (jsstring \<times> jsstring option) list" where
  "answers_of it = (case r_answers it of None \<Rightarrow> [(ascii ''2'', r_answer it)] | Some a \<Rightarrow> a)"

text \<open>
  One element of the inner \<open>map\<close>.  \<open>Number\<close> is the conversion of the language from
  a string to a number, a parameter here; \<open>stamp\<close> is the clock string read for the
  element.
\<close>

definition variant_of ::
  "(jsstring \<Rightarrow> jsnum) \<Rightarrow> jsstring \<Rightarrow> raw_result \<Rightarrow> nat \<Rightarrow> jsstring \<times> jsstring option \<Rightarrow> GeneratedQuestion" where
  "variant_of Number stamp it idx e =
     (let mark = fst e; ans = snd e
      in \<lparr> question_id = or_else (r_id it) (ascii ''gen-'' @ show_nat (idx + 1))
                           @ ascii ''-'' @ mark,
           question_text = or_else (r_question it)
                             (or_else (r_question_text it) (ascii ''Generated question'')),
           marks = (if js_strict_eq (Number mark) (Num 5) then Five
                    else if js_strict_eq (Number mark) (Num 10) then Ten else Two),
           answer = or_else ans [],
           answer_format = (if js_strict_eq (Number mark) (Num 2) then concise
                            else if js_strict_eq (Number mark) (Num 5) then structured
                            else detailed),
           page_references = (case r_page_references it of None \<Rightarrow> [] | Some refs \<Rightarrow> refs),
           diagram_images = [],
           verbatim_quotes = [],
           status = FOUND,
           retrieval_scores = [],
           generation_metadata = \<lparr> prompt_template = ascii ''runtime'',
                                   model = ascii ''gemini'',
                                   generated_at = Some stamp \<rparr> \<rparr>)"

text \<open>\<open>(r.results || []).flatMap((it, idx) => Object.entries(answers).map(...))\<close>\<close>

definition loadJobResults ::
  "(jsstring \<Rightarrow> jsnum) \<Rightarrow> (nat \<Rightarrow> nat \<Rightarrow> jsstring) \<Rightarrow> raw_result list option \<Rightarrow> GeneratedQuestion list" where
  "loadJobResults Number stamp results =
     concat (map (\<lambda>(idx, it).
                    map (\<lambda>(variantIdx, e). variant_of Number (stamp idx variantIdx) it idx e)
                      (enumerate 0 (answers_of it)))
               (enumerate 0 (case results of None \<Rightarrow> [] | Some rs \<Rightarrow> rs)))"

text \<open>
  A stand-in for \<open>Number\<close> in the closed examples: on a string of decimal digits it is
  the number they denote, as \<open>Number\<close> is; on every other string it is NaN, where
  \<open>Number\<close> may give a number (\<open>'2.0'\<close>, \<open>'1e1'\<close>, the empty string).  The
  examples use it on digit strings only; the general statements hold for every
  conversion.
\<close>

definition is_digit :: "code_unit \<Rightarrow> bool" where
  "is_digit c \<longleftrightarrow> 0x30 \<le> c \<and> c \<le> 0x39"

definition digits_Number :: "jsstring \<Rightarrow> jsnum" where
  "digits_Number s =
     (if s \<noteq> [] \<and> list_all is_digit s
      then Num (of_nat (foldl (\<lambda>n c. 10 * n + (unat c - 48)) 0 s))
      else NaN)"

section \<open>useAutoQAGeneration (src/unnamed/part_005): the mark of a preview item\<close>

text \<open>
  \<open>markKeys = ['10','5','2'].filter(k => it.answers && it.answers[k])\<close> and
  \<open>primaryMark = markKeys[0] ? parseInt(markKeys[0], 10) : (opts.marks[0] || 2)\<close>.
\<close>

definition markKeys :: "(jsstring \<times> jsstring option) list option \<Rightarrow> jsstring list" where
  "markKeys answers =
     filter (\<lambda>k. case answers of None \<Rightarrow> False
                  | Some a \<Rightarrow> truthy (case map_of a k of None \<Rightarrow> None | Some v \<Rightarrow> v))
       [ascii ''10'', ascii ''5'', ascii ''2'']"

definition primaryMark ::
  "(jsstring \<times> jsstring option) list option \<Rightarrow> QuestionMarks list \<Rightarrow> QuestionMarks" where
  "primaryMark answers opts_marks =
     (case markKeys answers of
        k # _ \<Rightarrow> (if k = ascii ''10'' then Ten else if k = ascii ''5'' then Five else Two)
      | [] \<Rightarrow> (case opts_marks of [] \<Rightarrow> Two | m # _ \<Rightarrow> m))"

section \<open>ReviewCenter (src/unnamed/part_012): the state of the page and its handlers\<close>

datatype view_mode = auto_qa | traditional

record review_state =
  dynamicItems :: "GeneratedQuestion list option"
  activeId :: jsstring
  viewMode :: view_mode

text \<open>
  What the page takes from outside: the conversion \<open>Number\<close>, the clock strings read
  while a job is loaded, and the clock strings read when the module built its sample.
\<close>

record page_env =
  env_Number :: "jsstring \<Rightarrow> jsnum"
  load_stamp :: "nat \<Rightarrow> nat \<Rightarrow> jsstring"
  sample_stamp :: "nat \<Rightarrow> jsstring"

definition initial_state :: review_state where
  "initial_state = \<lparr> dynamicItems = None, activeId = ascii ''auto-1'', viewMode = auto_qa \<rparr>"

text \<open>\<open>dynamicItems || sampleAutoQAQuestions\<close>: an array, even an empty one, is truthy.\<close>

definition source_items :: "page_env \<Rightarrow> review_state \<Rightarrow> GeneratedQuestion list" where
  "source_items env st =
     (case dynamicItems st of None \<Rightarrow> sampleAutoQAQuestions (sample_stamp env) | Some items \<Rightarrow> items)"

definition activeAutoQA :: "page_env \<Rightarrow> review_state \<Rightarrow> GeneratedQuestion option" where
  "activeAutoQA env st = find (\<lambda>q. question_id q = activeId st) (source_items env st)"

text \<open>
  The editor with its buttons is rendered only in the mode \<open>auto_qa\<close> and when there is
  an active question; \<open>editor\<close> is that question.
\<close>

definition editor :: "page_env \<Rightarrow> review_state \<Rightarrow> GeneratedQuestion option" where
  "editor env st = (if viewMode st = auto_qa then activeAutoQA env st else None)"

text \<open>
  \<open>setDynamicItems(prev => prev?.map(it => it.question_id === id ? f(it) : it) || null)\<close>
\<close>

definition update_items ::
  "jsstring \<Rightarrow> (GeneratedQuestion \<Rightarrow> GeneratedQuestion) \<Rightarrow> review_state \<Rightarrow> review_state" where
  "update_items qid f st =
     st\<lparr> dynamicItems := map_option (map (\<lambda>it. if question_id it = qid then f it else it))
                              (dynamicItems st) \<rparr>"

text \<open>
  The handler of the Approve button.  \<open>api_ok\<close> tells whether \<open>updateJobItem\<close>
  resolved; when it throws, the handler shows a toast and leaves the state.
\<close>

definition approve_click :: "page_env \<Rightarrow> bool \<Rightarrow> review_state \<Rightarrow> review_state" where
  "approve_click env api_ok st =
     (case editor env st of None \<Rightarrow> st
      | Some active \<Rightarrow>
          (case dynamicItems st of None \<Rightarrow> st
           | Some items \<Rightarrow>
               if list_ex (\<lambda>it. question_id it = question_id active) items
               then (if api_ok
                     then update_items (question_id active) (\<lambda>it. it\<lparr> status := APPROVED \<rparr>) st
                     else st)
               else st))"

text \<open>
  The two Regenerate buttons.  The response is absent when \<open>regenerateItem\<close> throws;
  otherwise \<open>regen.item\<close> may be absent, and
  \<open>newAns = regen.item?.answers?.[String(marks)] || regen.item?.answer || ''\<close>.
\<close>

definition new_answer :: "QuestionMarks \<Rightarrow> raw_result option \<Rightarrow> jsstring" where
  "new_answer m item =
     (case item of None \<Rightarrow> []
      | Some it \<Rightarrow>
          or_else (case r_answers it of None \<Rightarrow> None
                   | Some a \<Rightarrow> (case map_of a (show_nat (mark_value m)) of None \<Rightarrow> None
                                | Some v \<Rightarrow> v))
            (or_else (r_answer it) []))"

definition regenerate_click ::
  "page_env \<Rightarrow> raw_result option option \<Rightarrow> review_state \<Rightarrow> review_state" where
  "regenerate_click env response st =
     (case editor env st of None \<Rightarrow> st
      | Some active \<Rightarrow>
          (case response of None \<Rightarrow> st
           | Some item \<Rightarrow>
               update_items (question_id active)
                 (\<lambda>it. it\<lparr> answer := new_answer (marks active) item, status := status it \<rparr>) st))"

definition question_blur :: "page_env \<Rightarrow> jsstring \<Rightarrow> review_state \<Rightarrow> review_state" where
  "question_blur env val st =
     (case editor env st of None \<Rightarrow> st
      | Some active \<Rightarrow> update_items (question_id active) (\<lambda>it. it\<lparr> question_text := val \<rparr>) st)"

definition answer_blur :: "page_env \<Rightarrow> jsstring \<Rightarrow> review_state \<Rightarrow> review_state" where
  "answer_blur env val st =
     (case editor env st of None \<Rightarrow> st
      | Some active \<Rightarrow> update_items (question_id active) (\<lambda>it. it\<lparr> answer := val \<rparr>) st)"

text \<open>
  The effect that loads a job: without a \<open>job_id\<close> the items are reset to \<open>null\<close>;
  otherwise the results are mapped and the first item, if any, becomes active.
\<close>

definition load_job :: "page_env \<Rightarrow> raw_result list option option \<Rightarrow> review_state \<Rightarrow> review_state" where
  "load_job env job st =
     (case job of None \<Rightarrow> st\<lparr> dynamicItems := None \<rparr>
      | Some results \<Rightarrow>
          (let items = loadJobResults (env_Number env) (load_stamp env) results
           in case items of [] \<Rightarrow> st\<lparr> dynamicItems := Some [] \<rparr>
              | it # _ \<Rightarrow> st\<lparr> dynamicItems := Some items, activeId := question_id it \<rparr>))"

text \<open>What can happen on the page, and the state after it.\<close>

datatype action =
    LoadJob "raw_result list option option"
  | Select jsstring
  | SetViewMode view_mode
  | Approve bool
  | Save bool
  | Regenerate "raw_result option option"
  | QuestionBlur jsstring
  | AnswerBlur jsstring

fun review_step :: "page_env \<Rightarrow> action \<Rightarrow> review_state \<Rightarrow> review_state" where
  "review_step env (LoadJob job) st = load_job env job st"
| "review_step env (Select qid) st = st\<lparr> activeId := qid \<rparr>"
| "review_step env (SetViewMode m) st = st\<lparr> viewMode := m \<rparr>"
| "review_step env (Approve api_ok) st = approve_click env api_ok st"
| "review_step env (Save api_ok) st = st"
| "review_step env (Regenerate response) st = regenerate_click env response st"
| "review_step env (QuestionBlur val) st = question_blur env val st"
| "review_step env (AnswerBlur val) st = answer_blur env val st"

text \<open>The states the page can be in: the initial one, and every state after an action.\<close>

inductive reachable :: "page_env \<Rightarrow> review_state \<Rightarrow> bool" for env :: page_env where
  start: "reachable env initial_state"
| step: "reachable env st \<Longrightarrow> reachable env (review_step env a st)"

section \<open>The generation pipeline of the back end\<close>

text \<open>
  The back end that retrieves, prompts, validates and classifies is not among the
  sources.  This section follows the specification of it.
\<close>

text \<open>
  Modelled from the spec: a SourcePage, absent from the sources: a page of a document
  with its text.
\<close>

record SourcePage =
  document :: jsstring
  page_no :: nat
  page_text :: jsstring

text \<open>
  Modelled from the spec: a RetrievalHit, absent from the sources: a page with its
  relevance score.
\<close>

record RetrievalHit =
  hit_page :: SourcePage
  relevance :: rat

text \<open>
  Modelled from the spec: a GenerationRequest, absent from the sources, with the flag
  the assembler sets on a request that has no hits.
\<close>

record GenerationRequest =
  topic :: jsstring
  mark_value_req :: nat
  hits :: "RetrievalHit list"
  strict_sourcing :: bool
  ungroundable :: bool

text \<open>
  Modelled from the spec: the error kinds of the pipeline, absent from the sources.
\<close>

datatype ErrorKind = InvalidArgument | Unavailable | Malformed

text \<open>
  Modelled from the spec: the parsed output of the model, absent from the sources: the
  answer, whether the model signalled "not found", the cited pages and the quotes with
  the page each is taken from.
\<close>

record parsed_payload =
  pl_answer :: jsstring
  pl_not_found :: bool
  pl_references :: "(jsstring \<times> nat) list"
  pl_quotes :: "(jsstring \<times> (jsstring \<times> nat)) list"

text \<open>
  Modelled from the spec: the item a pipeline run ends with, absent from the sources,
  together with the number of Generation Client calls the run made.
\<close>

record pipeline_item =
  it_mark :: nat
  it_answer_format :: AnswerFormat
  it_answer :: jsstring
  it_references :: "(jsstring \<times> nat) list"
  it_status :: QuestionStatus
  it_scores :: "rat list"
  it_calls :: nat

text \<open>
  Modelled from the spec: the Prompt Assembler \<open>assemble\<close>, absent from the sources.  It
  always issues a request and flags it \<open>ungroundable\<close> exactly when there are no hits.
\<close>

definition assemble :: "jsstring \<Rightarrow> nat \<Rightarrow> RetrievalHit list \<Rightarrow> bool \<Rightarrow> GenerationRequest" where
  "assemble tp mark hs strict =
     \<lparr> topic = tp, mark_value_req = mark, hits = hs, strict_sourcing = strict,
       ungroundable = (hs = []) \<rparr>"

text \<open>
  Modelled from the spec: the fixed mapping from the mark value to the answer format
  (2 concise, 5 structured, 10 detailed), absent from the sources of the back end; a
  value outside the three is a caller error.
\<close>

definition format_of_mark :: "nat \<Rightarrow> AnswerFormat option" where
  "format_of_mark m =
     (if m = 2 then Some concise else if m = 5 then Some structured
      else if m = 10 then Some detailed else None)"

text \<open>
  Modelled from the spec: the Generation Client, absent from the sources.  A deterministic
  client answers the \<open>k\<close>-th call of a run, counted from 0, from the call number and the
  request; the second component of a request to it is the offending output of a repair
  request.
\<close>

type_synonym generation_client =
  "nat \<Rightarrow> GenerationRequest \<times> jsstring option \<Rightarrow> ErrorKind + jsstring"

text \<open>
  Modelled from the spec: the validator with its retry and repair loops, absent from the
  sources.  Every call of the client uses one attempt of the outer budget; an unavailable
  client is retried with the same request; output that is malformed or does not parse is
  answered by a repair request that carries it, as long as repair attempts remain.  The
  result is the parsed payload, if any, and the number of calls made.
\<close>

fun validate ::
  "generation_client \<Rightarrow> (jsstring \<Rightarrow> parsed_payload option) \<Rightarrow> GenerationRequest \<Rightarrow>
     nat \<Rightarrow> nat \<Rightarrow> nat \<Rightarrow> jsstring option \<Rightarrow> parsed_payload option \<times> nat" where
  "validate client parse req 0 repairs calls bad = (None, calls)"
| "validate client parse req (Suc attempts) repairs calls bad =
     (case client calls (req, bad) of
        Inl Unavailable \<Rightarrow> validate client parse req attempts repairs (Suc calls) bad
      | Inl e \<Rightarrow>
          (case repairs of 0 \<Rightarrow> (None, Suc calls)
           | Suc r \<Rightarrow> validate client parse req attempts r (Suc calls) (Some []))
      | Inr raw \<Rightarrow>
          (case parse raw of
             Some payload \<Rightarrow> (Some payload, Suc calls)
           | None \<Rightarrow>
               (case repairs of 0 \<Rightarrow> (None, Suc calls)
                | Suc r \<Rightarrow> validate client parse req attempts r (Suc calls) (Some raw))))"

text \<open>
  Modelled from the spec: the case normalisation of quotes and page text, absent from
  the sources: ASCII letters in lower case.
\<close>

definition lower :: "code_unit \<Rightarrow> code_unit" where
  "lower c = (if 0x41 \<le> c \<and> c \<le> 0x5A then c + 0x20 else c)"

text \<open>
  Modelled from the spec: white space normalisation, absent from the sources: every run
  of white space becomes one space.
\<close>

fun squeeze :: "jsstring \<Rightarrow> jsstring" where
  "squeeze [] = []"
| "squeeze [c] = [if is_js_space c then space else c]"
| "squeeze (c # d # cs) =
     (if is_js_space c then (if is_js_space d then squeeze (d # cs) else space # squeeze (d # cs))
      else c # squeeze (d # cs))"

text \<open>
  Modelled from the spec: the normal form in which a quote is compared with the text of
  its page, absent from the sources.
\<close>

definition normalise :: "jsstring \<Rightarrow> jsstring" where
  "normalise s = squeeze (map lower s)"

text \<open>
  Modelled from the spec: the substring test of the quote check, absent from the sources.
\<close>

fun is_substring :: "jsstring \<Rightarrow> jsstring \<Rightarrow> bool" where
  "is_substring q [] = (q = [])"
| "is_substring q (c # cs) = (take (length q) (c # cs) = q \<or> is_substring q cs)"

text \<open>
  Modelled from the spec: the hit that a citation (document, page) refers to, if any; the
  lookup is absent from the sources.
\<close>

definition page_of :: "RetrievalHit list \<Rightarrow> jsstring \<times> nat \<Rightarrow> RetrievalHit option" where
  "page_of hs r = find (\<lambda>h. (document (hit_page h), page_no (hit_page h)) = r) hs"

text \<open>
  Modelled from the spec: a quote is verified when its page is among the hits and the
  normalised quote is a substring of the normalised text of that page; the check is
  absent from the sources.
\<close>

definition quote_verified :: "RetrievalHit list \<Rightarrow> jsstring \<times> (jsstring \<times> nat) \<Rightarrow> bool" where
  "quote_verified hs q =
     (case page_of hs (snd q) of None \<Rightarrow> False
      | Some h \<Rightarrow> is_substring (normalise (fst q)) (normalise (page_text (hit_page h))))"

text \<open>
  Modelled from the spec: the retrieval scores of the cited pages, carried into the item;
  absent from the sources.
\<close>

definition cited_scores :: "RetrievalHit list \<Rightarrow> (jsstring \<times> nat) list \<Rightarrow> rat list" where
  "cited_scores hs refs =
     concat (map (\<lambda>r. case page_of hs r of None \<Rightarrow> [] | Some h \<Rightarrow> [relevance h]) refs)"

text \<open>
  Modelled from the spec: \<open>classify\<close>, absent from the sources: not found on an empty
  answer, a "not found" signal or no citation; needs review when a reference or a quote
  fails verification, or when the least score of the cited pages is below the threshold;
  found otherwise.
\<close>

definition classify :: "rat \<Rightarrow> parsed_payload \<Rightarrow> RetrievalHit list \<Rightarrow> QuestionStatus \<times> rat list" where
  "classify threshold payload hs =
     (let scores = cited_scores hs (pl_references payload) in
      if pl_answer payload = [] \<or> pl_not_found payload \<or> pl_references payload = []
        then (NOT_FOUND, scores)
      else if \<not> list_all (\<lambda>r. page_of hs r \<noteq> None) (pl_references payload)
              \<or> \<not> list_all (quote_verified hs) (pl_quotes payload)
        then (NEEDS_REVIEW, scores)
      else if list_ex (\<lambda>x. x < threshold) scores
        then (NEEDS_REVIEW, scores)
      else (FOUND, scores))"

text \<open>
  Modelled from the spec: the budgets and settings of a job, absent from the sources.
\<close>

record job_config =
  max_attempts :: nat
  max_repair_attempts :: nat
  retrieval_threshold :: rat
  strict :: bool

text \<open>
  Modelled from the spec: the item of a run that ends as not found, absent from the
  sources: no answer and no page references.
\<close>

definition not_found_item :: "nat \<Rightarrow> AnswerFormat \<Rightarrow> rat list \<Rightarrow> nat \<Rightarrow> pipeline_item" where
  "not_found_item mark fmt scores calls =
     \<lparr> it_mark = mark, it_answer_format = fmt, it_answer = [], it_references = [],
       it_status = NOT_FOUND, it_scores = scores, it_calls = calls \<rparr>"

text \<open>
  Modelled from the spec: the run of the pipeline for one item, absent from the sources:
  the argument check, the assembler, the short-circuit on an ungroundable request, the
  validator and the classifier, in this order.
\<close>

definition generateItem ::
  "generation_client \<Rightarrow> (jsstring \<Rightarrow> parsed_payload option) \<Rightarrow> job_config \<Rightarrow>
     jsstring \<Rightarrow> nat \<Rightarrow> RetrievalHit list \<Rightarrow> ErrorKind + pipeline_item" where
  "generateItem client parse cfg tp mark hs =
     (case format_of_mark mark of None \<Rightarrow> Inl InvalidArgument
      | Some fmt \<Rightarrow>
          if tp = [] then Inl InvalidArgument
          else
            let req = assemble tp mark hs (strict cfg) in
            if ungroundable req then Inr (not_found_item mark fmt [] 0)
            else
              (case validate client parse req (max_attempts cfg) (max_repair_attempts cfg) 0 None of
                 (None, calls) \<Rightarrow> Inr (not_found_item mark fmt [] calls)
               | (Some payload, calls) \<Rightarrow>
                   (case classify (retrieval_threshold cfg) payload hs of
                      (NOT_FOUND, scores) \<Rightarrow> Inr (not_found_item mark fmt scores calls)
                    | (st, scores) \<Rightarrow>
                        Inr \<lparr> it_mark = mark, it_answer_format = fmt,
                              it_answer = pl_answer payload,
                              it_references = pl_references payload,
                              it_status = st, it_scores = scores, it_calls = calls \<rparr>)))"

section \<open>Comparing outputs up to the clock\<close>

text \<open>
  The question without what the generator took from the clock: the digits at the end of
  the identifier, which are the value of \<open>Date.now()\<close>, and \<open>generated_at\<close>.
\<close>

definition strip_digits :: "jsstring \<Rightarrow> jsstring" where
  "strip_digits s = rev (dropWhile is_digit (rev s))"

definition strip_clock :: "GeneratedQuestion \<Rightarrow> GeneratedQuestion" where
  "strip_clock q =
     q\<lparr> question_id := strip_digits (question_id q),
        generation_metadata := (generation_metadata q)\<lparr> generated_at := None \<rparr> \<rparr>"

definition strip_clock_preview :: "QAPreviewItem \<Rightarrow> QAPreviewItem" where
  "strip_clock_preview p = p\<lparr> p_question_id := strip_digits (p_question_id p) \<rparr>"

section \<open>The shape of the status counts\<close>

text \<open>
  The accumulator of the reduction in \<open>AutoQAPreview\<close> with given counts: the three
  properties it starts with and, once an approved item was met, \<open>APPROVED\<close> with NaN.
\<close>

definition counts_obj :: "rat \<Rightarrow> rat \<Rightarrow> rat \<Rightarrow> bool \<Rightarrow> status_counts" where
  "counts_obj f n r a =
     [(FOUND, Num f), (NOT_FOUND, Num n), (NEEDS_REVIEW, Num r)]
       @ (if a then [(APPROVED, NaN)] else [])"

definition occurrences :: "QuestionStatus \<Rightarrow> QAPreviewItem list \<Rightarrow> rat" where
  "occurrences s items = of_nat (count_list (map p_status items) s)"

section \<open>Inputs of the examples\<close>

definition clock_a :: clock where
  "clock_a = \<lparr> iso_now = ascii ''2024-01-01T00:00:00.000Z'', date_now = (\<lambda>k. 1704067200000 + k) \<rparr>"

definition clock_b :: clock where
  "clock_b = \<lparr> iso_now = ascii ''2024-01-01T00:00:01.000Z'', date_now = (\<lambda>k. 1704067201000 + k) \<rparr>"

definition one_each :: "QuestionMarks \<Rightarrow> int" where
  "one_each m = 1"

definition no_stamp1 :: "nat \<Rightarrow> jsstring" where
  "no_stamp1 k = []"

definition no_stamp :: "nat \<Rightarrow> nat \<Rightarrow> jsstring" where
  "no_stamp idx variantIdx = []"

definition preview_with :: "QuestionStatus \<Rightarrow> QAPreviewItem" where
  "preview_with s =
     \<lparr> p_question_id = ascii ''q'', p_question_text = ascii ''Sample question'', p_marks = Two,
       p_status = s, p_page_count = 0, p_confidence_score = None \<rparr>"

definition page_env_0 :: page_env where
  "page_env_0 = \<lparr> env_Number = digits_Number, load_stamp = no_stamp, sample_stamp = no_stamp1 \<rparr>"

text \<open>
  The result the test of the page lets \<open>getJobResults\<close> return, and the state of the
  page after it is loaded.
\<close>

definition result_stack :: raw_result where
  "result_stack =
     \<lparr> r_id = Some (ascii ''abc123''), r_question = Some (ascii ''What is a stack?''),
       r_question_text = None,
       r_answers = Some [(ascii ''2'', Some (ascii ''A stack is LIFO structure.''))],
       r_answer = None, r_page_references = Some [] \<rparr>"

definition loaded_state :: review_state where
  "loaded_state = review_step page_env_0 (LoadJob (Some (Some [result_stack]))) initial_state"

definition client_down :: generation_client where
  "client_down k request = Inl Unavailable"

definition parse_nothing :: "jsstring \<Rightarrow> parsed_payload option" where
  "parse_nothing raw = None"

definition job_config_0 :: job_config where
  "job_config_0 =
     \<lparr> max_attempts = 3, max_repair_attempts = 2, retrieval_threshold = 1 / 2, strict = True \<rparr>"

definition result_7 :: raw_result where
  "result_7 =
     \<lparr> r_id = Some (ascii ''abc123''), r_question = Some (ascii ''What is a stack?''),
       r_question_text = None,
       r_answers = Some [(ascii ''7'', Some (ascii ''A stack is LIFO structure.''))],
       r_answer = None, r_page_references = Some [] \<rparr>"

section \<open>Properties of trimToSentence\<close>

lemma length_js_trim_le: "length (js_trim s) \<le> length s"
proof -
  have "length (js_trim s) \<le> length (dropWhile is_js_space s)"
    unfolding js_trim_def using length_dropWhile_le [of is_js_space "rev (dropWhile is_js_space s)"]
    by simp
  also have "\<dots> \<le> length s"
    by (rule length_dropWhile_le)
  finally show ?thesis .
qed

lemma is_js_space_space: "is_js_space space"
  by (simp add: is_js_space_def space_def)

lemma length_js_trim_snoc_space: "length (js_trim (xs @ [space])) \<le> length xs"
proof (cases "\<forall>x\<in>set xs. is_js_space x")
  case True
  then have "dropWhile is_js_space (xs @ [space]) = []"
    using is_js_space_space by (simp add: dropWhile_append)
  then show ?thesis
    by (simp add: js_trim_def)
next
  case False
  then have "dropWhile is_js_space (xs @ [space]) = dropWhile is_js_space xs @ [space]"
    by (auto simp: dropWhile_append)
  then have "js_trim (xs @ [space]) = js_trim xs"
    using is_js_space_space by (simp add: js_trim_def)
  then show ?thesis
    by (simp add: length_js_trim_le)
qed

lemma take_sentences_shape:
  assumes "out = [] \<or> (\<exists>pre. out = pre @ [space] \<and> int (length pre) \<le> m)"
  shows "take_sentences m out ss = [] \<or>
         (\<exists>pre. take_sentences m out ss = pre @ [space] \<and> int (length pre) \<le> m)"
  using assms
proof (induction ss arbitrary: out)
  case Nil
  then show ?case by simp
next
  case (Cons s ss)
  show ?case
  proof (cases "int (length (out @ s)) > m")
    case True
    with Cons.prems show ?thesis by simp
  next
    case False
    have "int (length (out @ js_trim s)) \<le> m"
      using False length_js_trim_le [of s] by simp
    then have "\<exists>pre. out @ js_trim s @ [space] = pre @ [space] \<and> int (length pre) \<le> m"
      by (intro exI [of _ "out @ js_trim s"]) simp
    then have "take_sentences m (out @ js_trim s @ [space]) ss = [] \<or>
         (\<exists>pre. take_sentences m (out @ js_trim s @ [space]) ss = pre @ [space]
            \<and> int (length pre) \<le> m)"
      by (intro Cons.IH) blast
    with False show ?thesis by simp
  qed
qed

lemma length_collected_le:
  assumes "0 \<le> m"
  shows "int (length (js_trim (take_sentences m [] ss))) \<le> m"
proof -
  have "take_sentences m [] ss = [] \<or>
         (\<exists>pre. take_sentences m [] ss = pre @ [space] \<and> int (length pre) \<le> m)"
    by (rule take_sentences_shape) simp
  then show ?thesis
  proof
    assume "take_sentences m [] ss = []"
    with assms show ?thesis by (simp add: js_trim_def)
  next
    assume "\<exists>pre. take_sentences m [] ss = pre @ [space] \<and> int (length pre) \<le> m"
    then obtain pre where p: "take_sentences m [] ss = pre @ [space]" "int (length pre) \<le> m"
      by blast
    have "length (js_trim (pre @ [space])) \<le> length pre"
      by (rule length_js_trim_snoc_space)
    with p show ?thesis by simp
  qed
qed

lemma length_js_slice0_length: "length (js_slice0 s e) \<le> length s"
  unfolding js_slice0_def by (cases "e < 0") simp_all

lemma length_js_slice0_le: "0 \<le> e \<Longrightarrow> int (length (js_slice0 s e)) \<le> e"
  by (simp add: js_slice0_def)

lemma length_fallback_le:
  assumes "0 \<le> e"
  shows "int (length (js_trim (if p > 40 then js_slice0 (js_slice0 s e) p else js_slice0 s e))) \<le> e"
proof -
  have "length (js_slice0 (js_slice0 s e) p) \<le> length (js_slice0 s e)"
    by (rule length_js_slice0_length)
  then have "length (if p > 40 then js_slice0 (js_slice0 s e) p else js_slice0 s e)
      \<le> length (js_slice0 s e)"
    by simp
  then have "length (js_trim (if p > 40 then js_slice0 (js_slice0 s e) p else js_slice0 s e))
      \<le> length (js_slice0 s e)"
    using length_js_trim_le le_trans by blast
  with length_js_slice0_le [OF assms, of s] show ?thesis
    by linarith
qed

text \<open>
  C10.  For every text and every integer \<open>maxChars\<close> that is at least 1 and smaller than
  the length of the text, \<open>trimToSentence\<close> returns a string of at most
  \<open>maxChars + 1\<close> code units whose last code unit is the ellipsis U+2026.
\<close>

theorem trimToSentence_truncated:
  assumes "int (length text) > maxChars" and "1 \<le> maxChars"
  shows "int (length (trimToSentence text maxChars)) \<le> maxChars + 1
         \<and> trimToSentence text maxChars \<noteq> []
         \<and> last (trimToSentence text maxChars) = ellipsis"
proof -
  let ?out = "js_trim (take_sentences maxChars [] (sentences_of text))"
  have bound: "int (length ?out) \<le> maxChars"
    using assms(2) by (intro length_collected_le) simp
  show ?thesis
  proof (cases "?out = []")
    case True
    have "int (length (js_trim (if js_lastIndexOf (js_slice0 text (maxChars - 1)) space > 40
            then js_slice0 (js_slice0 text (maxChars - 1))
                   (js_lastIndexOf (js_slice0 text (maxChars - 1)) space)
            else js_slice0 text (maxChars - 1)))) \<le> maxChars - 1"
      using assms(2) by (intro length_fallback_le) simp
    with True assms show ?thesis
      by (simp add: trimToSentence_def Let_def)
  next
    case False
    from bound assms(1) have "length ?out < length text"
      by linarith
    with False bound assms show ?thesis
      by (simp add: trimToSentence_def Let_def)
  qed
qed

theorem trimToSentence_truncated_witness:
  "int (length (ascii ''Hi. Yo. Long tail'')) > 8 \<and> (1::int) \<le> 8
   \<and> int (length (trimToSentence (ascii ''Hi. Yo. Long tail'') 8)) \<le> 8 + 1
   \<and> trimToSentence (ascii ''Hi. Yo. Long tail'') 8 \<noteq> []
   \<and> last (trimToSentence (ascii ''Hi. Yo. Long tail'') 8) = ellipsis"
  using trimToSentence_truncated [of 8 "ascii ''Hi. Yo. Long tail''"]
  by (simp add: ascii_def)

section \<open>Properties of the mock generator and the sample data\<close>

lemma mock_question_not_found:
  "status (mock_question now ms mark i) = NOT_FOUND \<Longrightarrow>
   answer (mock_question now ms mark i) = [] \<and> page_references (mock_question now ms mark i) = []"
  by (simp add: mock_question_def Let_def split: if_splits)

lemma questions_mock_push:
  "questions (mock_push clk mark i st) =
     questions st @ [mock_question (iso_now clk) (date_now clk (clock_reads st)) mark i]"
  by (simp add: mock_push_def Let_def)

lemma mock_push_all:
  assumes "\<forall>q\<in>set (questions st). P q"
    and "\<And>now ms mark i. P (mock_question now ms mark i)"
  shows "\<forall>q\<in>set (questions (fold (mock_push clk mark) ns st)). P q"
  using assms(1)
proof (induction ns arbitrary: st)
  case Nil
  then show ?case by simp
next
  case (Cons n ns)
  have "\<forall>q\<in>set (questions (mock_push clk mark n st)). P q"
    using Cons.prems assms(2) by (simp add: questions_mock_push)
  then show ?case
    using Cons.IH by simp
qed

lemma mock_run_all:
  assumes "\<And>now ms mark i. P (mock_question now ms mark i)"
  shows "\<forall>q\<in>set (questions (mock_run clk ms qpm)). P q"
proof -
  have step: "\<forall>q\<in>set (questions st). P q \<Longrightarrow>
        \<forall>q\<in>set (questions (fold (mock_for_mark clk qpm) ms st)). P q" for st
  proof (induction ms arbitrary: st)
    case Nil
    then show ?case by simp
  next
    case (Cons m ms)
    have "\<forall>q\<in>set (questions (mock_for_mark clk qpm m st)). P q"
      unfolding mock_for_mark_def using Cons.prems assms by (rule mock_push_all)
    then show ?case
      using Cons.IH by simp
  qed
  show ?thesis
    unfolding mock_run_def by (rule step) simp
qed

lemma sample_question_not_found:
  "status (sample_question stamp i) = NOT_FOUND \<Longrightarrow>
   answer (sample_question stamp i) = [] \<and> page_references (sample_question stamp i) = []"
proof -
  assume a: "status (sample_question stamp i) = NOT_FOUND"
  have "i mod 3 < 3" by simp
  then consider "i mod 3 = 0" | "i mod 3 = 1" | "i mod 3 = 2" by linarith
  then show ?thesis
  proof cases
    case 1 with a show ?thesis by (simp add: sample_question_def)
  next
    case 2 then show ?thesis by (simp add: sample_question_def)
  next
    case 3 then show ?thesis by (simp add: sample_question_def)
  qed
qed

text \<open>
  C1.  Every question the mock generator produces, and every question of the sample data,
  that has the status \<open>NOT_FOUND\<close> has the empty string as its answer and an empty list
  of page references.
\<close>

theorem not_found_items_are_empty:
  "(\<forall>q\<in>set (fst (mockGenerateQuestions clk marks_opt questionsPerMark)).
      status q = NOT_FOUND \<longrightarrow> answer q = [] \<and> page_references q = [])
   \<and> (\<forall>q\<in>set (sampleAutoQAQuestions stamp).
      status q = NOT_FOUND \<longrightarrow> answer q = [] \<and> page_references q = [])"
proof
  show "\<forall>q\<in>set (fst (mockGenerateQuestions clk marks_opt questionsPerMark)).
      status q = NOT_FOUND \<longrightarrow> answer q = [] \<and> page_references q = []"
    unfolding mockGenerateQuestions_def Let_def fst_conv
    by (rule mock_run_all) (use mock_question_not_found in blast)
  show "\<forall>q\<in>set (sampleAutoQAQuestions stamp).
      status q = NOT_FOUND \<longrightarrow> answer q = [] \<and> page_references q = []"
    using sample_question_not_found by (auto simp: sampleAutoQAQuestions_def)
qed

theorem not_found_items_are_empty_witness:
  "mock_question (iso_now clock_a) (date_now clock_a 0) Two 0
     \<in> set (fst (mockGenerateQuestions clock_a [Two] one_each))
   \<and> status (mock_question (iso_now clock_a) (date_now clock_a 0) Two 0) = NOT_FOUND
   \<and> answer (mock_question (iso_now clock_a) (date_now clock_a 0) Two 0) = []
   \<and> page_references (mock_question (iso_now clock_a) (date_now clock_a 0) Two 0) = []
   \<and> sample_question no_stamp1 1 \<in> set (sampleAutoQAQuestions no_stamp1)
   \<and> status (sample_question no_stamp1 1) = NOT_FOUND
   \<and> answer (sample_question no_stamp1 1) = []
   \<and> page_references (sample_question no_stamp1 1) = []"
proof -
  have m: "mock_question (iso_now clock_a) (date_now clock_a 0) Two 0
     \<in> set (fst (mockGenerateQuestions clock_a [Two] one_each))"
    by (simp add: mockGenerateQuestions_def mock_run_def mock_for_mark_def mock_push_def
        one_each_def Let_def)
  have s: "status (mock_question (iso_now clock_a) (date_now clock_a 0) Two 0) = NOT_FOUND"
    by (simp add: mock_question_def)
  have "(1::nat) \<in> set [0 ..< 24]"
    by simp
  then have m': "sample_question no_stamp1 1 \<in> set (sampleAutoQAQuestions no_stamp1)"
    unfolding sampleAutoQAQuestions_def set_map by (rule imageI)
  have s': "status (sample_question no_stamp1 1) = NOT_FOUND"
    by (simp add: sample_question_def)
  from m s m' s' not_found_items_are_empty [of clock_a "[Two]" one_each no_stamp1]
  show ?thesis
    by blast
qed

lemma preview_mock_push:
  "preview (mock_push clk mark i st) =
     preview st @ [preview_of (mock_question (iso_now clk) (date_now clk (clock_reads st)) mark i)]"
  by (simp add: mock_push_def Let_def)

lemma show_nat_digits: "list_all is_digit (show_nat n)"
proof (induction n rule: show_nat.induct)
  case (1 n)
  have d: "is_digit (digit k)" if "k < 10" for k
  proof -
    from that have "k \<in> {0,1,2,3,4,5,6,7,8,9}" by auto
    then show ?thesis
      by (auto simp: is_digit_def digit_def)
  qed
  show ?case
  proof (cases "n < 10")
    case True
    then show ?thesis
      by (subst show_nat.simps) (simp add: d)
  next
    case False
    with 1 have "list_all is_digit (show_nat (n div 10))" by simp
    moreover have "is_digit (digit (n mod 10))" by (rule d) simp
    ultimately show ?thesis
      using False by (subst show_nat.simps) simp
  qed
qed

lemma strip_digits_stamp: "strip_digits (pre @ ascii ''-'' @ show_nat n) = pre @ ascii ''-''"
proof -
  have "\<And>x. x \<in> set (rev (show_nat n)) \<Longrightarrow> is_digit x"
    using show_nat_digits [of n] by (simp add: list_all_iff)
  then have "dropWhile is_digit (rev (show_nat n) @ rev (pre @ ascii ''-''))
      = dropWhile is_digit (rev (pre @ ascii ''-''))"
    by (rule dropWhile_append2)
  moreover have "dropWhile is_digit (rev (pre @ ascii ''-'')) = rev (pre @ ascii ''-'')"
    by (simp add: ascii_def is_digit_def)
  ultimately show ?thesis
    by (simp add: strip_digits_def)
qed

lemma strip_clock_mock_question:
  "strip_clock (mock_question now ms mark i) = strip_clock (mock_question now' ms' mark i)"
proof -
  have "strip_digits ((ascii ''auto:'' @ show_nat (mark_value mark) @ ascii ''-'' @ show_nat i) @ ascii ''-'' @ show_nat t)
      = (ascii ''auto:'' @ show_nat (mark_value mark) @ ascii ''-'' @ show_nat i) @ ascii ''-''" for t
    by (rule strip_digits_stamp)
  then show ?thesis
    by (simp add: strip_clock_def mock_question_def Let_def)
qed

lemma strip_clock_preview_of: "strip_clock_preview (preview_of q) = preview_of (strip_clock q)"
  by (simp add: strip_clock_preview_def preview_of_def strip_clock_def)

text \<open>The output of the inner loop, up to the clock.\<close>

lemma stripped_fold_push:
  "map strip_clock (questions (fold (mock_push clk mark) ns st))
     = map strip_clock (questions st) @ map (\<lambda>i. strip_clock (mock_question [] 0 mark i)) ns"
proof (induction ns arbitrary: st)
  case Nil
  then show ?case by simp
next
  case (Cons n ns)
  have "strip_clock (mock_question (iso_now clk) (date_now clk (clock_reads st)) mark n)
      = strip_clock (mock_question [] 0 mark n)"
    by (rule strip_clock_mock_question)
  then show ?case
    by (simp add: Cons.IH questions_mock_push)
qed

lemma preview_follows_questions:
  assumes "preview st = map preview_of (questions st)"
  shows "preview (fold (mock_push clk mark) ns st)
     = map preview_of (questions (fold (mock_push clk mark) ns st))"
  using assms
proof (induction ns arbitrary: st)
  case Nil
  then show ?case by simp
next
  case (Cons n ns)
  have "preview (mock_push clk mark n st) = map preview_of (questions (mock_push clk mark n st))"
    using Cons.prems by (simp add: questions_mock_push preview_mock_push)
  then show ?case
    using Cons.IH by simp
qed

lemma stripped_mock_run_aux:
  "map strip_clock (questions (fold (mock_for_mark clk qpm) ms st))
     = map strip_clock (questions st)
       @ concat (map (\<lambda>m. map (\<lambda>i. strip_clock (mock_question [] 0 m i)) [0 ..< nat (qpm m)]) ms)"
proof (induction ms arbitrary: st)
  case Nil
  then show ?case by simp
next
  case (Cons m ms)
  have "map strip_clock (questions (mock_for_mark clk qpm m st))
      = map strip_clock (questions st)
        @ map (\<lambda>i. strip_clock (mock_question [] 0 m i)) [0 ..< nat (qpm m)]"
    by (simp add: mock_for_mark_def stripped_fold_push)
  then show ?case
    by (simp add: Cons.IH)
qed

lemma preview_mock_run_aux:
  assumes "preview st = map preview_of (questions st)"
  shows "preview (fold (mock_for_mark clk qpm) ms st)
     = map preview_of (questions (fold (mock_for_mark clk qpm) ms st))"
  using assms
proof (induction ms arbitrary: st)
  case Nil
  then show ?case by simp
next
  case (Cons m ms)
  have "preview (mock_for_mark clk qpm m st) = map preview_of (questions (mock_for_mark clk qpm m st))"
    unfolding mock_for_mark_def using Cons.prems by (rule preview_follows_questions)
  then show ?case
    using Cons.IH by simp
qed

lemma stripped_mock_run:
  "map strip_clock (questions (mock_run clk ms qpm))
     = concat (map (\<lambda>m. map (\<lambda>i. strip_clock (mock_question [] 0 m i)) [0 ..< nat (qpm m)]) ms)"
  by (simp add: mock_run_def stripped_mock_run_aux)

lemma preview_mock_run:
  "preview (mock_run clk ms qpm) = map preview_of (questions (mock_run clk ms qpm))"
  unfolding mock_run_def by (rule preview_mock_run_aux) simp

text \<open>
  What the generator does not read from the clock is determined by its input: for the
  same marks and the same counts, the lists of questions and of preview items of two
  calls are equal once the digits of \<open>Date.now()\<close> at the end of each identifier and
  \<open>generated_at\<close> are taken out.
\<close>

lemma mock_output_equal_up_to_clock:
  "map strip_clock (fst (mockGenerateQuestions clk marks_opt questionsPerMark))
     = map strip_clock (fst (mockGenerateQuestions clk' marks_opt questionsPerMark))
   \<and> map strip_clock_preview (snd (mockGenerateQuestions clk marks_opt questionsPerMark))
     = map strip_clock_preview (snd (mockGenerateQuestions clk' marks_opt questionsPerMark))"
proof -
  have q: "map strip_clock (questions (mock_run clk marks_opt questionsPerMark))
      = map strip_clock (questions (mock_run clk' marks_opt questionsPerMark))"
    by (simp only: stripped_mock_run)
  have p: "map strip_clock_preview (preview (mock_run c marks_opt questionsPerMark))
      = map (preview_of \<circ> strip_clock) (questions (mock_run c marks_opt questionsPerMark))" for c
    by (simp add: preview_mock_run strip_clock_preview_of)
  have "map (preview_of \<circ> strip_clock) (questions (mock_run clk marks_opt questionsPerMark))
      = map (preview_of \<circ> strip_clock) (questions (mock_run clk' marks_opt questionsPerMark))"
    using arg_cong [OF q, of "map preview_of"] by simp
  with q p show ?thesis
    by (simp add: mockGenerateQuestions_def Let_def)
qed

text \<open>
  C4.  Two calls of the mock generator with the same marks and the same counts are to
  give identical outputs, identifiers and generation metadata included.  The generator
  puts the clock into both, and two calls at different times give different outputs.
\<close>

theorem mock_output_differs_with_clock:
  "mockGenerateQuestions clock_a [Two] one_each \<noteq> mockGenerateQuestions clock_b [Two] one_each"
proof -
  have a: "map (generated_at \<circ> generation_metadata) (fst (mockGenerateQuestions clock_a [Two] one_each))
      = [Some (ascii ''2024-01-01T00:00:00.000Z'')]"
    by (simp add: mockGenerateQuestions_def mock_run_def mock_for_mark_def mock_push_def
        mock_question_def one_each_def clock_a_def Let_def)
  have b: "map (generated_at \<circ> generation_metadata) (fst (mockGenerateQuestions clock_b [Two] one_each))
      = [Some (ascii ''2024-01-01T00:00:01.000Z'')]"
    by (simp add: mockGenerateQuestions_def mock_run_def mock_for_mark_def mock_push_def
        mock_question_def one_each_def clock_b_def Let_def)
  have "ascii ''2024-01-01T00:00:00.000Z'' \<noteq> ascii ''2024-01-01T00:00:01.000Z''"
    by (simp add: ascii_def)
  with a b show ?thesis
    by auto
qed

section \<open>Properties of the status counts of AutoQAPreview\<close>

lemma stats_step_counts_obj:
  "stats_step (counts_obj f n r a) item =
     counts_obj (f + (if p_status item = FOUND then 1 else 0))
       (n + (if p_status item = NOT_FOUND then 1 else 0))
       (r + (if p_status item = NEEDS_REVIEW then 1 else 0))
       (a \<or> p_status item = APPROVED)"
  by (cases "p_status item") (simp_all add: stats_step_def counts_obj_def)

lemma foldl_stats_step:
  "foldl stats_step (counts_obj f n r a) items =
     counts_obj (f + occurrences FOUND items) (n + occurrences NOT_FOUND items)
       (r + occurrences NEEDS_REVIEW items) (a \<or> APPROVED \<in> p_status ` set items)"
proof (induction items arbitrary: f n r a)
  case Nil
  then show ?case by (simp add: occurrences_def)
next
  case (Cons item items)
  show ?case
    by (cases "p_status item")
      (simp_all add: stats_step_counts_obj Cons.IH occurrences_def add.assoc)
qed

lemma stats_closed_form:
  "stats items =
     counts_obj (occurrences FOUND items) (occurrences NOT_FOUND items)
       (occurrences NEEDS_REVIEW items) (APPROVED \<in> p_status ` set items)"
proof -
  have "stats items = foldl stats_step (counts_obj 0 0 0 False) items"
    by (simp add: stats_def counts_obj_def)
  then show ?thesis
    by (simp add: foldl_stats_step)
qed

lemma occurrences_mset:
  assumes "mset items = mset items'"
  shows "occurrences s items = occurrences s items'"
proof -
  have "mset (map p_status items) = mset (map p_status items')"
    using assms by (metis mset_map)
  then have "count (mset (map p_status items)) s = count (mset (map p_status items')) s"
    by (rule arg_cong)
  then have "count_list (map p_status items) s = count_list (map p_status items') s"
    by (simp only: count_mset)
  then show ?thesis
    by (simp add: occurrences_def)
qed

text \<open>
  C5.  The status counts that \<open>AutoQAPreview\<close> reduces a list of items to are the same
  for every permutation of the list.
\<close>

theorem stats_order_independent:
  assumes "mset items = mset items'"
  shows "stats items = stats items'"
proof -
  have "set items = set items'"
    using assms by (rule mset_eq_setD)
  then show ?thesis
    by (simp add: stats_closed_form occurrences_mset [OF assms])
qed

theorem stats_order_independent_witness:
  "mset [preview_with FOUND, preview_with APPROVED, preview_with NOT_FOUND]
     = mset [preview_with NOT_FOUND, preview_with FOUND, preview_with APPROVED]
   \<and> [preview_with FOUND, preview_with APPROVED, preview_with NOT_FOUND]
     \<noteq> [preview_with NOT_FOUND, preview_with FOUND, preview_with APPROVED]
   \<and> stats [preview_with FOUND, preview_with APPROVED, preview_with NOT_FOUND]
     = stats [preview_with NOT_FOUND, preview_with FOUND, preview_with APPROVED]"
proof -
  have m: "mset [preview_with FOUND, preview_with APPROVED, preview_with NOT_FOUND]
     = mset [preview_with NOT_FOUND, preview_with FOUND, preview_with APPROVED]"
    by (simp add: add_mset_commute)
  have "preview_with FOUND \<noteq> preview_with NOT_FOUND"
    by (simp add: preview_with_def)
  with m stats_order_independent [OF m] show ?thesis
    by simp
qed

lemma collect_render_item:
  assumes "APPROVED \<notin> p_status ` set items"
  shows "\<exists>rows. collect render_item items = Inr rows"
  using assms
proof (induction items)
  case Nil
  then show ?case by simp
next
  case (Cons item items)
  then obtain rows where "collect render_item items = Inr rows"
    by auto
  moreover from Cons.prems have "p_status item \<noteq> APPROVED"
    by auto
  then obtain config where "statusConfig (p_status item) = Some config"
    by (cases "p_status item") auto
  then have "render_item item = Inr (config, item)"
    by (simp add: render_item_def)
  ultimately show ?case
    by simp
qed

lemma collect_render_item_fails:
  assumes "APPROVED \<in> p_status ` set items"
  shows "collect render_item items = Inl TypeError"
  using assms
proof (induction items)
  case Nil
  then show ?case by simp
next
  case (Cons item items)
  show ?case
  proof (cases "p_status item = APPROVED")
    case True
    then have "render_item item = Inl TypeError"
      by (simp add: render_item_def)
    then show ?thesis by simp
  next
    case False
    with Cons have "collect render_item items = Inl TypeError" by auto
    then show ?thesis
      by (cases "render_item item") (simp_all, metis js_error.exhaust)
  qed
qed

text \<open>
  C9.  \<open>statusConfig\<close> has no entry for \<open>APPROVED\<close>.  When a list has an approved item,
  the count stored under \<open>APPROVED\<close> is NaN and the lookup of the item's entry is
  \<open>undefined\<close>, so that rendering ends in a TypeError; when every status is
  \<open>FOUND\<close>, \<open>NOT_FOUND\<close> or \<open>NEEDS_REVIEW\<close>, the counts are the numbers of the items
  of each status, every lookup is defined and the component renders.
\<close>

theorem approved_is_outside_statusConfig:
  "statusConfig APPROVED = None
   \<and> (APPROVED \<in> p_status ` set items \<longrightarrow>
        map_of (stats items) APPROVED = Some NaN
        \<and> collect render_item items = Inl TypeError
        \<and> AutoQAPreview items = Inl TypeError)
   \<and> (APPROVED \<notin> p_status ` set items \<longrightarrow>
        stats items = [(FOUND, Num (occurrences FOUND items)),
                       (NOT_FOUND, Num (occurrences NOT_FOUND items)),
                       (NEEDS_REVIEW, Num (occurrences NEEDS_REVIEW items))]
        \<and> (\<forall>item\<in>set items. statusConfig (p_status item) \<noteq> None)
        \<and> (\<exists>view. AutoQAPreview items = Inr view))"
proof (intro conjI impI)
  show "statusConfig APPROVED = None" by simp
next
  assume a: "APPROVED \<in> p_status ` set items"
  then show "map_of (stats items) APPROVED = Some NaN"
    by (simp add: stats_closed_form counts_obj_def)
  from a show "collect render_item items = Inl TypeError"
    by (rule collect_render_item_fails)
  from a have "collect render_count (stats items) = Inl TypeError"
    by (simp add: stats_closed_form counts_obj_def render_count_def)
  then show "AutoQAPreview items = Inl TypeError"
    by (simp add: AutoQAPreview_def)
next
  assume a: "APPROVED \<notin> p_status ` set items"
  then show "stats items = [(FOUND, Num (occurrences FOUND items)),
                       (NOT_FOUND, Num (occurrences NOT_FOUND items)),
                       (NEEDS_REVIEW, Num (occurrences NEEDS_REVIEW items))]"
    by (simp add: stats_closed_form counts_obj_def)
  show "\<forall>item\<in>set items. statusConfig (p_status item) \<noteq> None"
  proof
    fix item assume "item \<in> set items"
    with a have "p_status item \<noteq> APPROVED" by (metis imageI)
    then show "statusConfig (p_status item) \<noteq> None"
      by (cases "p_status item") auto
  qed
  from a obtain rows where "collect render_item items = Inr rows"
    using collect_render_item by blast
  moreover from a have "\<exists>summary. collect render_count (stats items) = Inr summary"
    by (simp add: stats_closed_form counts_obj_def render_count_def)
  ultimately show "\<exists>view. AutoQAPreview items = Inr view"
    by (auto simp: AutoQAPreview_def)
qed

theorem approved_is_outside_statusConfig_witness:
  "APPROVED \<in> p_status ` set [preview_with FOUND, preview_with APPROVED]
   \<and> map_of (stats [preview_with FOUND, preview_with APPROVED]) APPROVED = Some NaN
   \<and> AutoQAPreview [preview_with FOUND, preview_with APPROVED] = Inl TypeError
   \<and> APPROVED \<notin> p_status ` set [preview_with FOUND, preview_with NEEDS_REVIEW]
   \<and> stats [preview_with FOUND, preview_with NEEDS_REVIEW]
        = [(FOUND, Num 1), (NOT_FOUND, Num 0), (NEEDS_REVIEW, Num 1)]
   \<and> statusConfig (p_status (preview_with FOUND)) \<noteq> None
   \<and> statusConfig (p_status (preview_with NEEDS_REVIEW)) \<noteq> None
   \<and> (\<exists>view. AutoQAPreview [preview_with FOUND, preview_with NEEDS_REVIEW] = Inr view)"
proof -
  have a: "APPROVED \<in> p_status ` set [preview_with FOUND, preview_with APPROVED]"
    by (simp add: preview_with_def)
  have b: "APPROVED \<notin> p_status ` set [preview_with FOUND, preview_with NEEDS_REVIEW]"
    by (simp add: preview_with_def)
  have c: "occurrences FOUND [preview_with FOUND, preview_with NEEDS_REVIEW] = 1"
    "occurrences NOT_FOUND [preview_with FOUND, preview_with NEEDS_REVIEW] = 0"
    "occurrences NEEDS_REVIEW [preview_with FOUND, preview_with NEEDS_REVIEW] = 1"
    by (simp_all add: occurrences_def preview_with_def)
  from a b c approved_is_outside_statusConfig [of "[preview_with FOUND, preview_with APPROVED]"]
    approved_is_outside_statusConfig [of "[preview_with FOUND, preview_with NEEDS_REVIEW]"]
  show ?thesis
    by simp
qed

section \<open>The counts derived over a batch\<close>

lemma occurrences_sum:
  assumes "APPROVED \<notin> p_status ` set items"
  shows "occurrences FOUND items + occurrences NOT_FOUND items + occurrences NEEDS_REVIEW items
       = of_nat (length items)"
  using assms
proof (induction items)
  case Nil
  then show ?case by (simp add: occurrences_def)
next
  case (Cons item items)
  then have "occurrences FOUND items + occurrences NOT_FOUND items + occurrences NEEDS_REVIEW items
       = of_nat (length items)"
    by simp
  moreover from Cons.prems have "p_status item \<noteq> APPROVED"
    by auto
  ultimately show ?case
    by (cases "p_status item") (simp_all add: occurrences_def)
qed

text \<open>
  C7 (as amended).  The counts derived over a batch of items, the reduction of
  \<open>AutoQAPreview\<close>, hold the numbers of found, not-found and needs-review items under
  the keys \<open>FOUND\<close>, \<open>NOT_FOUND\<close> and \<open>NEEDS_REVIEW\<close>; when no item is approved these
  are all its keys, so that no total is stored, and the three counts add up to the
  number of items.
\<close>

theorem derived_counts_are_three:
  "map_of (stats items) FOUND = Some (Num (occurrences FOUND items))
   \<and> map_of (stats items) NOT_FOUND = Some (Num (occurrences NOT_FOUND items))
   \<and> map_of (stats items) NEEDS_REVIEW = Some (Num (occurrences NEEDS_REVIEW items))
   \<and> (APPROVED \<notin> p_status ` set items \<longrightarrow>
        map fst (stats items) = [FOUND, NOT_FOUND, NEEDS_REVIEW]
        \<and> occurrences FOUND items + occurrences NOT_FOUND items + occurrences NEEDS_REVIEW items
            = of_nat (length items))"
  by (simp add: stats_closed_form counts_obj_def occurrences_sum)

theorem derived_counts_are_three_witness:
  "APPROVED \<notin> p_status ` set [preview_with FOUND, preview_with NEEDS_REVIEW]
   \<and> map fst (stats [preview_with FOUND, preview_with NEEDS_REVIEW]) = [FOUND, NOT_FOUND, NEEDS_REVIEW]
   \<and> map_of (stats [preview_with FOUND, preview_with NEEDS_REVIEW]) NEEDS_REVIEW = Some (Num 1)
   \<and> occurrences FOUND [preview_with FOUND, preview_with NEEDS_REVIEW]
        + occurrences NOT_FOUND [preview_with FOUND, preview_with NEEDS_REVIEW]
        + occurrences NEEDS_REVIEW [preview_with FOUND, preview_with NEEDS_REVIEW] = 2"
proof -
  have a: "APPROVED \<notin> p_status ` set [preview_with FOUND, preview_with NEEDS_REVIEW]"
    by (simp add: preview_with_def)
  have c: "occurrences NEEDS_REVIEW [preview_with FOUND, preview_with NEEDS_REVIEW] = 1"
    by (simp add: occurrences_def preview_with_def)
  from a c derived_counts_are_three [of "[preview_with FOUND, preview_with NEEDS_REVIEW]"]
  show ?thesis
    by simp
qed

text \<open>
  C7 as stated fails: the counts derived for a found and a needs-review item are 1, 0 and
  1; the total 2 is not among them.
\<close>

theorem derived_counts_have_no_total:
  "stats [preview_with FOUND, preview_with NEEDS_REVIEW]
     = [(FOUND, Num 1), (NOT_FOUND, Num 0), (NEEDS_REVIEW, Num 1)]
   \<and> length [preview_with FOUND, preview_with NEEDS_REVIEW] = 2
   \<and> Num 2 \<notin> snd ` set (stats [preview_with FOUND, preview_with NEEDS_REVIEW])"
proof -
  have "stats [preview_with FOUND, preview_with NEEDS_REVIEW]
     = [(FOUND, Num 1), (NOT_FOUND, Num 0), (NEEDS_REVIEW, Num 1)]"
    by (simp add: stats_def stats_step_def preview_with_def)
  then show ?thesis
    by simp
qed

section \<open>Properties of the pipeline of the back end\<close>

lemma validate_counts_calls:
  "calls \<le> snd (validate client parse req attempts repairs calls bad)"
proof (induction attempts arbitrary: repairs calls bad)
  case 0
  then show ?case by simp
next
  case (Suc attempts)
  have a: "Suc calls \<le> snd (validate client parse req attempts r (Suc calls) b)" for r b
    by (rule Suc.IH)
  show ?case
  proof (cases "client calls (req, bad)")
    case (Inl e)
    then show ?thesis
      using a Suc_leD by (cases e; cases repairs) (auto simp del: validate.simps(2) simp add: validate.simps(2) intro: Suc_leD)
  next
    case (Inr raw)
    then show ?thesis
      using a by (cases "parse raw"; cases repairs) (auto intro: Suc_leD)
  qed
qed

lemma validate_makes_a_call:
  "calls < snd (validate client parse req (Suc attempts) repairs calls bad)"
proof -
  have a: "Suc calls \<le> snd (validate client parse req attempts r (Suc calls) b)" for r b
    by (rule validate_counts_calls)
  show ?thesis
  proof (cases "client calls (req, bad)")
    case (Inl e)
    then show ?thesis
      using a by (cases e; cases repairs) (auto intro: Suc_le_lessD)
  next
    case (Inr raw)
    then show ?thesis
      using a by (cases "parse raw"; cases repairs) (auto intro: Suc_le_lessD)
  qed
qed

text \<open>
  C8.  A generation request with a valid mark and topic whose hit set is empty ends as an
  item with the status \<open>NOT_FOUND\<close>, an empty answer and no page references, and the run
  makes no call of the Generation Client.
\<close>

theorem empty_hits_short_circuit:
  assumes "mark = 2 \<or> mark = 5 \<or> mark = 10" and "tp \<noteq> []"
  shows "\<exists>item. generateItem client parse cfg tp mark [] = Inr item
           \<and> it_status item = NOT_FOUND \<and> it_answer item = []
           \<and> it_references item = [] \<and> it_calls item = 0"
proof -
  from assms(1) obtain fmt where "format_of_mark mark = Some fmt"
    by (auto simp: format_of_mark_def)
  with assms(2) have "generateItem client parse cfg tp mark [] = Inr (not_found_item mark fmt [] 0)"
    by (simp add: generateItem_def assemble_def)
  then show ?thesis
    by (simp add: not_found_item_def)
qed

theorem empty_hits_short_circuit_witness:
  "((10::nat) = 2 \<or> (10::nat) = 5 \<or> (10::nat) = 10) \<and> ascii ''quantum foam'' \<noteq> []
   \<and> (\<exists>item. generateItem client_down parse_nothing job_config_0 (ascii ''quantum foam'') 10 [] = Inr item
           \<and> it_status item = NOT_FOUND \<and> it_answer item = []
           \<and> it_references item = [] \<and> it_calls item = 0)"
  using empty_hits_short_circuit [of 10 "ascii ''quantum foam''" client_down parse_nothing job_config_0]
  by (simp add: ascii_def)

lemma groundable_request_calls_client:
  assumes "mark = 2 \<or> mark = 5 \<or> mark = 10" and "tp \<noteq> []" and "hs \<noteq> []"
    and "0 < max_attempts cfg"
  shows "\<exists>item. generateItem client parse cfg tp mark hs = Inr item \<and> 0 < it_calls item"
proof -
  from assms(1) obtain fmt where f: "format_of_mark mark = Some fmt"
    by (auto simp: format_of_mark_def)
  from assms(4) obtain n where n: "max_attempts cfg = Suc n"
    by (cases "max_attempts cfg") auto
  let ?v = "validate client parse (assemble tp mark hs (strict cfg)) (Suc n)
              (max_repair_attempts cfg) 0 None"
  have c: "0 < snd ?v"
    by (rule validate_makes_a_call)
  obtain payload calls where v: "?v = (payload, calls)"
    by (cases ?v)
  with c have "0 < calls" by simp
  with f n v assms(2,3) show ?thesis
    by (cases payload; cases "classify (retrieval_threshold cfg) (the payload) hs";
        cases "fst (classify (retrieval_threshold cfg) (the payload) hs)")
      (auto simp: generateItem_def assemble_def not_found_item_def Let_def simp del: validate.simps)
qed

lemma pipeline_not_found_item_is_empty:
  assumes "generateItem client parse cfg tp mark hs = Inr item" and "it_status item = NOT_FOUND"
  shows "it_answer item = [] \<and> it_references item = []"
proof -
  obtain payload calls where v: "validate client parse (assemble tp mark hs (strict cfg))
      (max_attempts cfg) (max_repair_attempts cfg) 0 None = (payload, calls)"
    by (cases "validate client parse (assemble tp mark hs (strict cfg))
      (max_attempts cfg) (max_repair_attempts cfg) 0 None")
  obtain st scores where c: "classify (retrieval_threshold cfg) (the payload) hs = (st, scores)"
    by (cases "classify (retrieval_threshold cfg) (the payload) hs")
  from assms v c show ?thesis
    by (cases "format_of_mark mark"; cases payload; cases st)
      (auto simp: generateItem_def Let_def not_found_item_def split: if_splits)
qed

section \<open>Properties of the marks and formats of loaded items\<close>

lemma mock_question_format:
  "format_of_mark (mark_value (marks (mock_question now ms mark i)))
     = Some (answer_format (mock_question now ms mark i))"
  by (cases mark) (simp_all add: mock_question_def format_of_mark_def Let_def)

lemma sample_question_format:
  "format_of_mark (mark_value (marks (sample_question stamp i)))
     = Some (answer_format (sample_question stamp i))"
proof -
  have "i mod 3 < 3" by simp
  then consider "i mod 3 = 0" | "i mod 3 = 1" | "i mod 3 = 2" by linarith
  then show ?thesis
    by cases (simp_all add: sample_question_def format_of_mark_def)
qed

lemma generated_formats_follow_marks:
  "(\<forall>q\<in>set (fst (mockGenerateQuestions clk marks_opt questionsPerMark)).
      format_of_mark (mark_value (marks q)) = Some (answer_format q))
   \<and> (\<forall>q\<in>set (sampleAutoQAQuestions stamp).
      format_of_mark (mark_value (marks q)) = Some (answer_format q))"
proof
  show "\<forall>q\<in>set (fst (mockGenerateQuestions clk marks_opt questionsPerMark)).
      format_of_mark (mark_value (marks q)) = Some (answer_format q)"
    unfolding mockGenerateQuestions_def Let_def fst_conv
    by (rule mock_run_all) (rule mock_question_format)
  show "\<forall>q\<in>set (sampleAutoQAQuestions stamp).
      format_of_mark (mark_value (marks q)) = Some (answer_format q)"
    using sample_question_format by (auto simp: sampleAutoQAQuestions_def)
qed

lemma variant_format_on_valid_key:
  assumes "Number k = Num 2 \<or> Number k = Num 5 \<or> Number k = Num 10"
  shows "format_of_mark (mark_value (marks (variant_of Number st it idx (k, a))))
     = Some (answer_format (variant_of Number st it idx (k, a)))"
  using assms by (auto simp: variant_of_def js_strict_eq_def format_of_mark_def)

lemma length_concat_map_enumerate:
  "length (concat (map (\<lambda>p. map (h p) (enumerate 0 (f (snd p)))) (enumerate n rs)))
     = sum_list (map (\<lambda>it. length (f it)) rs)"
  by (induction rs arbitrary: n) simp_all

text \<open>
  C3 (as amended).  A mark key that is not 2, 5 or 10 is not rejected: the loader of
  ReviewCenter builds one item for every answer entry of every result, and the item of a
  key whose number is neither 5 nor 10 gets the mark 2; \<open>useAutoQAGeneration\<close> takes the
  first requested mark, or 2 when there is none, for an item that has no answer under
  the keys 10, 5 and 2.
\<close>

theorem mark_keys_are_coerced:
  "(Number k \<noteq> Num 5 \<and> Number k \<noteq> Num 10 \<longrightarrow>
      marks (variant_of Number st it idx (k, a)) = Two)
   \<and> length (loadJobResults Number stamp (Some rs)) = sum_list (map (\<lambda>it. length (answers_of it)) rs)
   \<and> (markKeys answers = [] \<longrightarrow>
        primaryMark answers opts_marks = (case opts_marks of [] \<Rightarrow> Two | m # _ \<Rightarrow> m))"
proof (intro conjI impI)
  assume "Number k \<noteq> Num 5 \<and> Number k \<noteq> Num 10"
  then show "marks (variant_of Number st it idx (k, a)) = Two"
    by (simp add: variant_of_def js_strict_eq_def)
next
  show "length (loadJobResults Number stamp (Some rs)) = sum_list (map (\<lambda>it. length (answers_of it)) rs)"
    unfolding loadJobResults_def option.case
    by (simp only: case_prod_unfold length_concat_map_enumerate [where f = answers_of])
next
  assume "markKeys answers = []"
  then show "primaryMark answers opts_marks = (case opts_marks of [] \<Rightarrow> Two | m # _ \<Rightarrow> m)"
    by (simp add: primaryMark_def)
qed

lemma digits_Number_7: "digits_Number (ascii ''7'') = Num 7"
  by (simp add: digits_Number_def ascii_def is_digit_def)

lemma load_result_7:
  "loadJobResults digits_Number no_stamp (Some [result_7])
     = [variant_of digits_Number [] result_7 0 (ascii ''7'', Some (ascii ''A stack is LIFO structure.''))]"
  by (simp add: loadJobResults_def answers_of_def result_7_def no_stamp_def enumerate_eq_zip)

theorem mark_keys_are_coerced_witness:
  "digits_Number (ascii ''7'') \<noteq> Num 5 \<and> digits_Number (ascii ''7'') \<noteq> Num 10
   \<and> marks (variant_of digits_Number [] result_7 0 (ascii ''7'', Some (ascii ''x''))) = Two
   \<and> markKeys (r_answers result_7) = []
   \<and> primaryMark (r_answers result_7) [Five] = Five"
proof -
  have m: "markKeys (r_answers result_7) = []"
    by (simp add: markKeys_def result_7_def ascii_def)
  from m digits_Number_7
    mark_keys_are_coerced [of digits_Number "ascii ''7''" "[]" result_7 0 "Some (ascii ''x'')" no_stamp "[]" "r_answers result_7" "[Five]"]
  show ?thesis
    by simp
qed

text \<open>
  C3 as stated fails: a result whose only answer has the key \<open>7\<close> is loaded as one item
  with the mark 2.
\<close>

theorem invalid_mark_key_is_accepted:
  "length (loadJobResults digits_Number no_stamp (Some [result_7])) = 1
   \<and> map marks (loadJobResults digits_Number no_stamp (Some [result_7])) = [Two]
   \<and> digits_Number (ascii ''7'') = Num 7"
  by (simp add: load_result_7 variant_of_def digits_Number_7 js_strict_eq_def)

text \<open>
  C6.  The answer format is to follow the mark value: 2 concise, 5 structured, 10
  detailed.  The mock generator and the sample data do so
  (\<open>generated_formats_follow_marks\<close>), and so does the loader of ReviewCenter for the
  keys 2, 5 and 10 (\<open>variant_format_on_valid_key\<close>); for the key \<open>7\<close> the loader gives
  an item with the mark 2 and the format detailed.
\<close>

theorem loaded_item_mark_2_format_detailed:
  "map marks (loadJobResults digits_Number no_stamp (Some [result_7])) = [Two]
   \<and> map answer_format (loadJobResults digits_Number no_stamp (Some [result_7])) = [detailed]"
  by (simp add: load_result_7 variant_of_def digits_Number_7 js_strict_eq_def)

section \<open>Properties of the Approve action of ReviewCenter\<close>

lemma loaded_items_are_found: "\<forall>q\<in>set (loadJobResults Number stamp results). status q = FOUND"
  by (auto simp: loadJobResults_def variant_of_def Let_def)

lemma update_items_keeps_status:
  assumes "\<And>it. status (f it) = status it"
  shows "map_option (map status) (dynamicItems (update_items qid f st))
       = map_option (map status) (dynamicItems st)"
  by (cases "dynamicItems st") (simp_all add: update_items_def assms)

lemma other_actions_keep_status:
  assumes "a \<noteq> Approve True" and "\<forall>job. a \<noteq> LoadJob job"
  shows "map_option (map status) (dynamicItems (review_step env a st))
       = map_option (map status) (dynamicItems st)"
proof (cases a)
  case (LoadJob job)
  with assms(2) show ?thesis by simp
next
  case (Approve api_ok)
  with assms(1) have "\<not> api_ok" by auto
  with Approve show ?thesis
    by (simp add: approve_click_def split: option.splits)
next
  case (Regenerate response)
  then show ?thesis
    by (simp add: regenerate_click_def update_items_keeps_status split: option.splits)
next
  case (QuestionBlur val)
  then show ?thesis
    by (simp add: question_blur_def update_items_keeps_status split: option.splits)
next
  case (AnswerBlur val)
  then show ?thesis
    by (simp add: answer_blur_def update_items_keeps_status split: option.splits)
qed simp_all

lemma load_job_never_approves:
  assumes "dynamicItems (load_job env job st) = Some items'" and "q \<in> set items'"
  shows "status q = FOUND"
proof (cases job)
  case None
  with assms show ?thesis by (simp add: load_job_def)
next
  case (Some results)
  have "items' = loadJobResults (env_Number env) (load_stamp env) results"
    using assms(1) Some by (simp add: load_job_def Let_def split: list.splits)
  with assms(2) loaded_items_are_found show ?thesis
    by blast
qed

lemma active_is_listed:
  assumes "editor env st = Some active" and "dynamicItems st = Some items"
  shows "list_ex (\<lambda>it. question_id it = question_id active) items"
proof -
  from assms have "find (\<lambda>q. question_id q = activeId st) items = Some active"
    by (simp add: editor_def activeAutoQA_def source_items_def split: if_splits)
  then have "active \<in> set items"
    by (auto simp: find_Some_iff)
  then show ?thesis
    by (auto simp: list_ex_iff)
qed

text \<open>
  On the page itself a loaded item is found or approved: the loader gives every item the
  status \<open>FOUND\<close>, whatever the back end reported, and only Approve changes a status.
\<close>

lemma reachable_items_found_or_approved:
  assumes "reachable env st" and "dynamicItems st = Some items" and "q \<in> set items"
  shows "status q = FOUND \<or> status q = APPROVED"
  using assms
proof (induction arbitrary: items q rule: reachable.induct)
  case start
  then show ?case by (simp add: initial_state_def)
next
  case (step st a)
  show ?case
  proof (cases "a = Approve True")
    case True
    show ?thesis
    proof (cases "dynamicItems st")
      case None
      with True step.prems show ?thesis
        by (simp add: approve_click_def update_items_def split: option.splits if_splits)
    next
      case (Some items0)
      from True step.prems(1) Some have "items = items0 \<or>
        (\<exists>qid. items = map (\<lambda>it. if question_id it = qid then it\<lparr> status := APPROVED \<rparr> else it) items0)"
        by (auto simp: approve_click_def update_items_def split: option.splits if_splits)
      then show ?thesis
      proof
        assume "items = items0"
        with step.IH Some step.prems(2) show ?thesis by blast
      next
        assume "\<exists>qid. items = map (\<lambda>it. if question_id it = qid then it\<lparr> status := APPROVED \<rparr> else it) items0"
        then obtain qid where "items = map (\<lambda>it. if question_id it = qid then it\<lparr> status := APPROVED \<rparr> else it) items0"
          by blast
        with step.prems(2) obtain q0 where q0: "q0 \<in> set items0"
          "q = (if question_id q0 = qid then q0\<lparr> status := APPROVED \<rparr> else q0)"
          by auto
        from step.IH Some q0(1) have "status q0 = FOUND \<or> status q0 = APPROVED" by blast
        with q0(2) show ?thesis by (auto split: if_splits)
      qed
    qed
  next
    case False
    show ?thesis
    proof (cases "\<exists>job. a = LoadJob job")
      case True
      then obtain job where "a = LoadJob job" by blast
      with step.prems have "status q = FOUND"
        using load_job_never_approves [of env job st items q] by simp
      then show ?thesis ..
    next
      case noload: False
      then have "map_option (map status) (dynamicItems (review_step env a st))
          = map_option (map status) (dynamicItems st)"
        using False by (intro other_actions_keep_status) auto
      with step.prems(1) obtain items0 where i0: "dynamicItems st = Some items0"
        "map status items = map status items0"
        by (cases "dynamicItems st") auto
      from step.prems(2) have "status q \<in> set (map status items)" by simp
      with i0(2) obtain q0 where "q0 \<in> set items0" "status q0 = status q" by auto
      with step.IH i0(1) show ?thesis by metis
    qed
  qed
qed

lemma sample_never_approved:
  assumes "q \<in> set (sampleAutoQAQuestions stamp)"
  shows "status q \<noteq> APPROVED"
proof -
  from assms obtain i where q: "q = sample_question stamp i"
    by (auto simp: sampleAutoQAQuestions_def)
  have "i mod 3 < 3" by simp
  then consider "i mod 3 = 0" | "i mod 3 = 1" | "i mod 3 = 2" by linarith
  then show ?thesis
    by cases (simp_all add: q sample_question_def)
qed

lemma approve_click_without_job:
  assumes "dynamicItems st = None"
  shows "approve_click env api_ok st = st"
  using assms by (simp add: approve_click_def split: option.splits)

lemma approve_click_items:
  assumes "dynamicItems st = Some items"
  shows "\<exists>items'. dynamicItems (approve_click env api_ok st) = Some items'
           \<and> length items' = length items
           \<and> (\<forall>j<length items. status (items' ! j) = status (items ! j)
                  \<or> status (items' ! j) = APPROVED)"
proof (cases "approve_click env api_ok st = st")
  case True
  with assms show ?thesis by simp
next
  case False
  then obtain qid where "approve_click env api_ok st
      = update_items qid (\<lambda>it. it\<lparr> status := APPROVED \<rparr>) st"
    by (auto simp: approve_click_def split: option.splits if_splits)
  with assms show ?thesis
    by (simp add: update_items_def)
qed

text \<open>
  C2.  In every state the page can reach and for every action, an item that is approved
  after the action was approved before it, or it was found or in need of review and the
  action is a successful Approve; it was never \<open>NOT_FOUND\<close>.  The items are those the
  page shows: the loaded ones, or the sample data when no job is loaded.
\<close>

theorem approved_only_from_found_or_needs_review_by_approve:
  assumes "reachable env st"
    and "i < length (source_items env (review_step env a st))"
    and "status (source_items env (review_step env a st) ! i) = APPROVED"
  shows "i < length (source_items env st)
         \<and> status (source_items env st ! i) \<noteq> NOT_FOUND
         \<and> (status (source_items env st ! i) = APPROVED
              \<or> ((status (source_items env st ! i) = FOUND
                    \<or> status (source_items env st ! i) = NEEDS_REVIEW)
                   \<and> a = Approve True))"
proof -
  let ?st' = "review_step env a st"
  have after: "dynamicItems ?st' \<noteq> None"
  proof
    assume "dynamicItems ?st' = None"
    then have "source_items env ?st' = sampleAutoQAQuestions (sample_stamp env)"
      by (simp add: source_items_def)
    with assms(2,3) sample_never_approved [of "source_items env ?st' ! i" "sample_stamp env"]
    show False by simp
  qed
  then obtain items' where items': "dynamicItems ?st' = Some items'"
    by blast
  then have src': "source_items env ?st' = items'"
    by (simp add: source_items_def)
  have noload: "a \<noteq> LoadJob job" for job
  proof
    assume "a = LoadJob job"
    with items' have "dynamicItems (load_job env job st) = Some items'" by simp
    moreover from assms(2) src' have "items' ! i \<in> set items'" by simp
    ultimately have "status (items' ! i) = FOUND"
      by (rule load_job_never_approves)
    with assms(3) src' show False by simp
  qed
  have before: "\<exists>items. dynamicItems st = Some items \<and> length items' = length items
      \<and> (status (items' ! i) = status (items ! i) \<or> a = Approve True)"
  proof (cases "a = Approve True")
    case True
    show ?thesis
    proof (cases "dynamicItems st")
      case None
      with True items' show ?thesis
        by (simp add: approve_click_without_job)
    next
      case (Some items)
      from approve_click_items [OF Some, of env True] True items'
      have "length items' = length items" by auto
      with Some True show ?thesis by simp
    qed
  next
    case False
    then have "map_option (map status) (dynamicItems ?st') = map_option (map status) (dynamicItems st)"
      using noload by (intro other_actions_keep_status) auto
    with items' obtain items where it: "dynamicItems st = Some items"
      "map status items' = map status items"
      by (cases "dynamicItems st") auto
    from it(2) have l: "length items' = length items"
      by (rule map_eq_imp_length_eq)
    with it(2) assms(2) src' have "status (items' ! i) = status (items ! i)"
      by (metis nth_map)
    with it(1) l show ?thesis by blast
  qed
  then obtain items where items: "dynamicItems st = Some items" "length items' = length items"
    "status (items' ! i) = status (items ! i) \<or> a = Approve True"
    by blast
  then have src: "source_items env st = items"
    by (simp add: source_items_def)
  from assms(2) src' items(2) have i: "i < length items" by simp
  then have "items ! i \<in> set items" by simp
  with assms(1) items(1) have inv: "status (items ! i) = FOUND \<or> status (items ! i) = APPROVED"
    by (rule reachable_items_found_or_approved)
  from items(3) assms(3) src' have "status (items ! i) = APPROVED \<or> a = Approve True"
    by auto
  with inv i src show ?thesis
    by auto
qed

lemma load_result_stack:
  "loadJobResults digits_Number no_stamp (Some [result_stack])
     = [variant_of digits_Number [] result_stack 0 (ascii ''2'', Some (ascii ''A stack is LIFO structure.''))]"
  by (simp add: loadJobResults_def answers_of_def result_stack_def no_stamp_def enumerate_eq_zip)

lemma loaded_state_items:
  "dynamicItems loaded_state
     = Some [variant_of digits_Number [] result_stack 0 (ascii ''2'', Some (ascii ''A stack is LIFO structure.''))]
   \<and> activeId loaded_state
     = question_id (variant_of digits_Number [] result_stack 0 (ascii ''2'', Some (ascii ''A stack is LIFO structure.'')))"
  by (simp add: loaded_state_def load_job_def page_env_0_def load_result_stack Let_def)

lemma reachable_loaded_state: "reachable page_env_0 loaded_state"
  unfolding loaded_state_def by (rule reachable.step) (rule reachable.start)

theorem approved_only_from_found_or_needs_review_by_approve_witness:
  "reachable page_env_0 loaded_state
   \<and> 0 < length (source_items page_env_0 (review_step page_env_0 (Approve True) loaded_state))
   \<and> status (source_items page_env_0 (review_step page_env_0 (Approve True) loaded_state) ! 0) = APPROVED
   \<and> 0 < length (source_items page_env_0 loaded_state)
   \<and> status (source_items page_env_0 loaded_state ! 0) = FOUND"
proof -
  let ?q = "variant_of digits_Number [] result_stack 0 (ascii ''2'', Some (ascii ''A stack is LIFO structure.''))"
  have d: "dynamicItems loaded_state = Some [?q]" and a: "activeId loaded_state = question_id ?q"
    using loaded_state_items by simp_all
  have vm: "viewMode loaded_state = auto_qa"
    by (simp add: loaded_state_def load_job_def Let_def initial_state_def split: list.splits)
  have e: "editor page_env_0 loaded_state = Some ?q"
    by (simp add: editor_def activeAutoQA_def source_items_def d a vm)
  have step: "dynamicItems (review_step page_env_0 (Approve True) loaded_state)
      = Some [?q\<lparr> status := APPROVED \<rparr>]"
    by (simp add: approve_click_def e d update_items_def)
  have h1: "0 < length (source_items page_env_0 (review_step page_env_0 (Approve True) loaded_state))"
    and h2: "status (source_items page_env_0 (review_step page_env_0 (Approve True) loaded_state) ! 0) = APPROVED"
    using step by (simp_all add: source_items_def)
  have f: "status (source_items page_env_0 loaded_state ! 0) = FOUND"
    by (simp add: source_items_def d variant_of_def Let_def)
  from approved_only_from_found_or_needs_review_by_approve [OF reachable_loaded_state h1 h2]
    reachable_loaded_state h1 h2 f
  show ?thesis
    by simp
qed

text \<open>The sample data has not-found items; Approve leaves them as they are.\<close>

lemma approve_leaves_the_sample:
  "dynamicItems initial_state = None
   \<and> review_step env (Approve api_ok) initial_state = initial_state
   \<and> status (source_items env initial_state ! 1) = NOT_FOUND"
proof -
  have "(1::nat) < length [0 ..< 24]" by simp
  then have "sampleAutoQAQuestions (sample_stamp env) ! 1 = sample_question (sample_stamp env) 1"
    unfolding sampleAutoQAQuestions_def by (simp only: nth_map) simp
  moreover have "status (sample_question (sample_stamp env) (Suc 0)) = NOT_FOUND"
    by (simp add: sample_question_def)
  ultimately show ?thesis
    by (simp add: initial_state_def approve_click_without_job source_items_def)
qed

end
